theory Spec2Isabelle
  imports Complex_Main
begin

section \<open>Python values read from JSON\<close>

text \<open>
  The exporter \<^verbatim>\<open>app.py\<close> works on the values that \<^verbatim>\<open>response.json()\<close> hands
  back: \<^verbatim>\<open>None\<close>, booleans, integers, floats, strings, lists and dicts. A dict is an
  association list read by \<open>map_of\<close>, so the first binding of a key is the dict's value
  for it. An integer is one of Python's unbounded integers. A float is an IEEE double:
  \<open>Finite q\<close> is the double of the value \<open>q\<close> (with \<open>Finite 0\<close> for \<^verbatim>\<open>0.0\<close>),
  \<open>NegZero\<close> is \<^verbatim>\<open>-0.0\<close>, and there are the two infinities and \<^verbatim>\<open>nan\<close>, which
  the JSON decoder produces for \<^verbatim>\<open>Infinity\<close>, \<^verbatim>\<open>-Infinity\<close> and \<^verbatim>\<open>NaN\<close>. A string
  is a list of characters with codes below 256.
\<close>

datatype pyfloat = Finite rat | NegZero | PosInf | NegInf | NaN

datatype json =
    JNull
  | JBool bool
  | JInt int
  | JFloat pyfloat
  | JStr string
  | JArr "json list"
  | JObj "(string \<times> json) list"

text \<open>
  Exceptions are values. \<open>RequestException\<close> stands for the whole class
  \<^verbatim>\<open>requests.exceptions.RequestException\<close> (connection errors, timeouts, the
  \<^verbatim>\<open>HTTPError\<close> of \<^verbatim>\<open>raise_for_status\<close>) and carries the library's text;
  \<open>KeyError\<close> carries the missing key.
\<close>

datatype py_exception =
    RequestException string
  | KeyError string
  | TypeError
  | AttributeError
  | ValueError
  | OverflowError

datatype 'a result = Returns 'a | Raises py_exception

text \<open>A Python number, the kind of value that \<^verbatim>\<open>total_stake\<close> holds.\<close>

datatype number = PyInt int | PyFloat pyfloat

subsection \<open>Doubles\<close>

text \<open>\<^verbatim>\<open>n.bit_length()\<close>\<close>

fun bit_length :: "nat \<Rightarrow> nat" where
  "bit_length n = (if n = 0 then 0 else Suc (bit_length (n div 2)))"

declare bit_length.simps [simp del]

text \<open>
  The double nearest to a natural number, as a natural number: the number keeps its 53
  leading bits, the rest is rounded to nearest, ties to even. Numbers below
  \<open>2 ^ 53\<close> stay as they are.
\<close>

definition round_to_bits :: "nat \<Rightarrow> nat" where
  "round_to_bits a =
     (let e = bit_length a - 53; q = a div 2 ^ e; r = a mod 2 ^ e
      in if 2 ^ e < 2 * r \<or> (2 * r = 2 ^ e \<and> odd q) then (q + 1) * 2 ^ e else q * 2 ^ e)"

text \<open>
  \<^verbatim>\<open>float(n)\<close> of an integer: the nearest double, and \<^verbatim>\<open>OverflowError\<close> when that
  would be \<open>2 ^ 1024\<close> or more.
\<close>

definition float_of_int :: "int \<Rightarrow> pyfloat result" where
  "float_of_int n =
     (let v = round_to_bits (nat \<bar>n\<bar>)
      in if 2 ^ 1024 \<le> v then Raises OverflowError
         else Returns (Finite (if n < 0 then - of_nat v else of_nat v)))"

text \<open>
  The double nearest to a rational number that is not negative. Every double is a
  multiple of \<open>2 ^ - 1074\<close>, so the number is first counted in that unit; then it is
  rounded as above, to an integer when it is below \<open>2 ^ 53\<close> units. A result of
  \<open>2 ^ 1024\<close> or more is an infinity, a result of zero keeps the sign.
\<close>

definition round_half_even :: "rat \<Rightarrow> int" where
  "round_half_even r =
     (let f = \<lfloor>r\<rfloor>; d = r - of_int f
      in if 1 / 2 < d \<or> (d = 1 / 2 \<and> odd f) then f + 1 else f)"

definition nearest_units :: "rat \<Rightarrow> int" where
  "nearest_units k =
     (let e = bit_length (nat \<lfloor>k\<rfloor>) - 53
      in round_half_even (k / 2 ^ e) * 2 ^ e)"

definition nearest_double :: "bool \<Rightarrow> rat \<Rightarrow> pyfloat" where
  "nearest_double negative q =
     (let v = nearest_units (q * 2 ^ 1074)
      in if 2 ^ 2098 \<le> v then (if negative then NegInf else PosInf)
         else if v = 0 then (if negative then NegZero else Finite 0)
         else Finite ((if negative then - 1 else 1) * of_int v / 2 ^ 1074))"

text \<open>The value of a double that is not an infinity or \<^verbatim>\<open>nan\<close>.\<close>

fun float_value :: "pyfloat \<Rightarrow> rat" where
  "float_value (Finite q) = q"
| "float_value _ = 0"

text \<open>The sum of two doubles, \<^verbatim>\<open>x + y\<close>.\<close>

fun float_add :: "pyfloat \<Rightarrow> pyfloat \<Rightarrow> pyfloat" where
  "float_add NaN y = NaN"
| "float_add x NaN = NaN"
| "float_add PosInf NegInf = NaN"
| "float_add NegInf PosInf = NaN"
| "float_add PosInf y = PosInf"
| "float_add x PosInf = PosInf"
| "float_add NegInf y = NegInf"
| "float_add x NegInf = NegInf"
| "float_add NegZero NegZero = NegZero"
| "float_add x y =
     (let s = float_value x + float_value y
      in if s = 0 then Finite 0 else nearest_double (s < 0) \<bar>s\<bar>)"

text \<open>\<^verbatim>\<open>x < y\<close> on doubles; every comparison with \<^verbatim>\<open>nan\<close> is false.\<close>

fun float_less :: "pyfloat \<Rightarrow> pyfloat \<Rightarrow> bool" where
  "float_less NaN y = False"
| "float_less x NaN = False"
| "float_less PosInf y = False"
| "float_less x NegInf = False"
| "float_less NegInf y = True"
| "float_less x PosInf = True"
| "float_less x y = (float_value x < float_value y)"

text \<open>\<^verbatim>\<open>bool(x)\<close> of a double: false for the two zeros only.\<close>

fun float_truthy :: "pyfloat \<Rightarrow> bool" where
  "float_truthy (Finite q) = (q \<noteq> 0)"
| "float_truthy NegZero = False"
| "float_truthy _ = True"

subsection \<open>The built-in operations the source applies to these values\<close>

text \<open>\<^verbatim>\<open>if x:\<close> and \<^verbatim>\<open>if not x:\<close>\<close>

fun py_truthy :: "json \<Rightarrow> bool" where
  "py_truthy JNull = False"
| "py_truthy (JBool b) = b"
| "py_truthy (JInt n) = (n \<noteq> 0)"
| "py_truthy (JFloat x) = float_truthy x"
| "py_truthy (JStr s) = (s \<noteq> [])"
| "py_truthy (JArr xs) = (xs \<noteq> [])"
| "py_truthy (JObj kvs) = (kvs \<noteq> [])"

text \<open>\<^verbatim>\<open>d.get(key, default)\<close>: only a dict has the method.\<close>

fun py_get :: "json \<Rightarrow> string \<Rightarrow> json \<Rightarrow> json result" where
  "py_get (JObj kvs) k d = Returns (case map_of kvs k of None \<Rightarrow> d | Some v \<Rightarrow> v)"
| "py_get _ k d = Raises AttributeError"

text \<open>\<^verbatim>\<open>x[key]\<close> with a string key: a dict without the key raises \<^verbatim>\<open>KeyError\<close>,
  every other value raises \<^verbatim>\<open>TypeError\<close>.\<close>

fun py_getitem :: "json \<Rightarrow> string \<Rightarrow> json result" where
  "py_getitem (JObj kvs) k = (case map_of kvs k of None \<Rightarrow> Raises (KeyError k) | Some v \<Rightarrow> Returns v)"
| "py_getitem _ k = Raises TypeError"

text \<open>The keys of a dict, each once, in the order of their first binding.\<close>

definition dict_keys :: "(string \<times> json) list \<Rightarrow> string list" where
  "dict_keys kvs = rev (remdups (rev (map fst kvs)))"

text \<open>\<^verbatim>\<open>len(x)\<close>; a dict counts its keys, a string its characters.\<close>

fun py_len :: "json \<Rightarrow> nat result" where
  "py_len (JStr s) = Returns (length s)"
| "py_len (JArr xs) = Returns (length xs)"
| "py_len (JObj kvs) = Returns (length (dict_keys kvs))"
| "py_len _ = Raises TypeError"

text \<open>\<^verbatim>\<open>for staker in x\<close>: the elements of a list, the keys of a dict, the characters
  of a string.\<close>

fun py_iter :: "json \<Rightarrow> json list result" where
  "py_iter (JArr xs) = Returns xs"
| "py_iter (JObj kvs) = Returns (map JStr (dict_keys kvs))"
| "py_iter (JStr s) = Returns (map (\<lambda>c. JStr [c]) s)"
| "py_iter _ = Raises TypeError"

text \<open>The number a value is in arithmetic and comparison: an int, a bool or a float.\<close>

fun py_number :: "json \<Rightarrow> number option" where
  "py_number (JInt n) = Some (PyInt n)"
| "py_number (JBool b) = Some (PyInt (if b then 1 else 0))"
| "py_number (JFloat x) = Some (PyFloat x)"
| "py_number _ = None"

text \<open>\<^verbatim>\<open>float(x)\<close> of a number.\<close>

fun number_float :: "number \<Rightarrow> pyfloat result" where
  "number_float (PyInt n) = float_of_int n"
| "number_float (PyFloat x) = Returns x"

text \<open>
  \<^verbatim>\<open>total_stake += stake\<close>, with \<^verbatim>\<open>total_stake\<close> a number. Two integers add to an
  integer. When one of the two is a float, the other is converted to a float, which
  raises \<^verbatim>\<open>OverflowError\<close> for an integer that is too large, and the floats are
  added.
\<close>

definition py_add :: "number \<Rightarrow> json \<Rightarrow> number result" where
  "py_add t x =
     (case py_number x of
        None \<Rightarrow> Raises TypeError
      | Some y \<Rightarrow>
          (case (t, y) of
             (PyInt a, PyInt b) \<Rightarrow> Returns (PyInt (a + b))
           | _ \<Rightarrow>
               (case number_float t of
                  Raises e \<Rightarrow> Raises e
                | Returns u \<Rightarrow>
                    (case number_float y of
                       Raises e \<Rightarrow> Raises e
                     | Returns v \<Rightarrow> Returns (PyFloat (float_add u v))))))"

text \<open>
  \<^verbatim>\<open>x < y\<close> on numbers. Python compares an integer with a float by value, without
  rounding the integer. The comparison is the one of numbers; the list \<^verbatim>\<open>stakes\<close>
  holds nothing else when the loop has ended.
\<close>

fun number_value :: "number \<Rightarrow> pyfloat" where
  "number_value (PyInt n) = Finite (of_int n)"
| "number_value (PyFloat x) = x"

definition py_less :: "json \<Rightarrow> json \<Rightarrow> bool result" where
  "py_less x y =
     (case (py_number x, py_number y) of
        (Some a, Some b) \<Rightarrow> Returns (float_less (number_value a) (number_value b))
      | _ \<Rightarrow> Raises TypeError)"

text \<open>
  \<^verbatim>\<open>max(xs)\<close> and \<^verbatim>\<open>min(xs)\<close> keep the first of several equal extremes and raise
  \<^verbatim>\<open>ValueError\<close> on an empty list.
\<close>

fun max_from :: "json \<Rightarrow> json list \<Rightarrow> json result" where
  "max_from m [] = Returns m"
| "max_from m (x # xs) =
     (case py_less m x of
        Raises e \<Rightarrow> Raises e
      | Returns b \<Rightarrow> max_from (if b then x else m) xs)"

fun min_from :: "json \<Rightarrow> json list \<Rightarrow> json result" where
  "min_from m [] = Returns m"
| "min_from m (x # xs) =
     (case py_less x m of
        Raises e \<Rightarrow> Raises e
      | Returns b \<Rightarrow> min_from (if b then x else m) xs)"

definition py_max :: "json list \<Rightarrow> json result" where
  "py_max xs = (case xs of [] \<Rightarrow> Raises ValueError | x # rest \<Rightarrow> max_from x rest)"

definition py_min :: "json list \<Rightarrow> json result" where
  "py_min xs = (case xs of [] \<Rightarrow> Raises ValueError | x # rest \<Rightarrow> min_from x rest)"

text \<open>
  \<^verbatim>\<open>time.sleep(secs)\<close> with an integer: the length is turned into nanoseconds in a
  64-bit integer, which raises \<^verbatim>\<open>OverflowError\<close> when it does not fit; a negative
  length is then refused with \<^verbatim>\<open>ValueError\<close>.
\<close>

definition py_sleep :: "int \<Rightarrow> unit result" where
  "py_sleep secs =
     (if secs < - 9223372036 \<or> 9223372036 < secs then Raises OverflowError
      else if secs < 0 then Raises ValueError
      else Returns ())"

subsection \<open>Numerals: \<^verbatim>\<open>str(n)\<close>, \<^verbatim>\<open>int(s)\<close> and \<^verbatim>\<open>float(s)\<close>\<close>

definition digit_char :: "nat \<Rightarrow> char" where
  "digit_char d = char_of (48 + d)"

definition is_digit :: "char \<Rightarrow> bool" where
  "is_digit c = (48 \<le> (of_char c :: nat) \<and> (of_char c :: nat) \<le> 57)"

definition digit_val :: "char \<Rightarrow> nat" where
  "digit_val c = of_char c - 48"

fun digits_of :: "nat \<Rightarrow> string" where
  "digits_of n = (if n < 10 then [digit_char n] else digits_of (n div 10) @ [digit_char (n mod 10)])"

declare digits_of.simps [simp del]

definition str_of_int :: "int \<Rightarrow> string" where
  "str_of_int i = (if i < 0 then CHR ''-'' # digits_of (nat (- i)) else digits_of (nat i))"

text \<open>
  \<^verbatim>\<open>str(x)\<close>, which the metrics library applies to a label value. It is exact on
  \<^verbatim>\<open>None\<close>, booleans, strings and integers of at most 4300 digits. For a list or a
  dict Python prints the \<^verbatim>\<open>repr\<close> of the elements, which is given here without the
  escapes of \<^verbatim>\<open>repr\<close> on strings; of a float Python prints the shortest decimal that
  reads back as the float, which is given here for the floats that are integers below
  \<open>10 ^ 16\<close> and is replaced by the fraction for the others.
\<close>

fun join :: "string \<Rightarrow> string list \<Rightarrow> string" where
  "join sep [] = []"
| "join sep [x] = x"
| "join sep (x # y # ys) = x @ sep @ join sep (y # ys)"

definition quoted :: "string \<Rightarrow> string" where
  "quoted s = [CHR 0x27] @ s @ [CHR 0x27]"

fun float_repr :: "pyfloat \<Rightarrow> string" where
  "float_repr NaN = ''nan''"
| "float_repr PosInf = ''inf''"
| "float_repr NegInf = ''-inf''"
| "float_repr NegZero = ''-0.0''"
| "float_repr (Finite q) =
     (if of_int \<lfloor>q\<rfloor> = q \<and> \<bar>q\<bar> < 10 ^ 16 then str_of_int \<lfloor>q\<rfloor> @ ''.0''
      else str_of_int (fst (quotient_of q)) @ ''/'' @ str_of_int (snd (quotient_of q)))"

fun py_repr :: "json \<Rightarrow> string" where
  "py_repr JNull = ''None''"
| "py_repr (JBool b) = (if b then ''True'' else ''False'')"
| "py_repr (JInt n) = str_of_int n"
| "py_repr (JFloat x) = float_repr x"
| "py_repr (JStr s) = quoted s"
| "py_repr (JArr xs) = ''['' @ join '', '' (map py_repr xs) @ '']''"
| "py_repr (JObj kvs) =
     ''{'' @ join '', '' (map (\<lambda>(k, v). quoted k @ '': '' @ py_repr v) kvs) @ ''}''"

fun py_str :: "json \<Rightarrow> string" where
  "py_str (JStr s) = s"
| "py_str x = py_repr x"

text \<open>
  A string is a list of characters with codes below 256, so a text with characters from
  beyond Latin-1 is not among the inputs.
  Before \<^verbatim>\<open>int\<close> or \<^verbatim>\<open>float\<close> reads a string that is not all ASCII, the
  interpreter replaces every white space character above ASCII by a blank (below 256
  these are the codes 133 and 160) and cuts the string at the first other character
  above ASCII, where it puts a question mark. The white space that is then dropped at
  both ends is the one of C: the blank and the codes 9 to 13.
\<close>

definition unicode_space :: "char \<Rightarrow> bool" where
  "unicode_space c = ((of_char c :: nat) = 133 \<or> (of_char c :: nat) = 160)"

fun transform_to_ascii :: "string \<Rightarrow> string" where
  "transform_to_ascii [] = []"
| "transform_to_ascii (c # cs) =
     (if (of_char c :: nat) < 127 then c # transform_to_ascii cs
      else if unicode_space c then CHR '' '' # transform_to_ascii cs
      else [CHR ''?''])"

definition to_ascii :: "string \<Rightarrow> string" where
  "to_ascii s = (if list_all (\<lambda>c. (of_char c :: nat) < 128) s then s else transform_to_ascii s)"

definition is_space :: "char \<Rightarrow> bool" where
  "is_space c = ((of_char c :: nat) = 32 \<or> (9 \<le> (of_char c :: nat) \<and> (of_char c :: nat) \<le> 13))"

definition strip :: "string \<Rightarrow> string" where
  "strip s = rev (dropWhile is_space (rev (dropWhile is_space s)))"

text \<open>
  \<^verbatim>\<open>int(s)\<close> on a string: one sign is allowed, then decimal digits, where single
  underscores may separate digits. A numeral of more digits than
  \<^verbatim>\<open>sys.int_info.default_max_str_digits\<close> is refused, as is anything that is no
  numeral, with \<^verbatim>\<open>ValueError\<close>.
\<close>

definition default_max_str_digits :: nat where
  "default_max_str_digits = 4300"

fun digits_value :: "nat \<Rightarrow> string \<Rightarrow> nat option" where
  "digits_value acc [] = Some acc"
| "digits_value acc (c # cs) =
     (if is_digit c then digits_value (acc * 10 + digit_val c) cs
      else if c = CHR ''_'' then
        (case cs of
           [] \<Rightarrow> None
         | d # _ \<Rightarrow> if is_digit d then digits_value acc cs else None)
      else None)"

definition unsigned_value :: "string \<Rightarrow> nat option" where
  "unsigned_value s =
     (case s of
        [] \<Rightarrow> None
      | c # _ \<Rightarrow>
          if is_digit c \<and> length (filter is_digit s) \<le> default_max_str_digits
          then digits_value 0 s else None)"

definition py_int :: "string \<Rightarrow> int result" where
  "py_int s =
     (case strip (to_ascii s) of
        [] \<Rightarrow> Raises ValueError
      | c # cs \<Rightarrow>
          if c = CHR ''-'' then
            (case unsigned_value cs of None \<Rightarrow> Raises ValueError | Some n \<Rightarrow> Returns (- int n))
          else if c = CHR ''+'' then
            (case unsigned_value cs of None \<Rightarrow> Raises ValueError | Some n \<Rightarrow> Returns (int n))
          else
            (case unsigned_value (c # cs) of None \<Rightarrow> Raises ValueError | Some n \<Rightarrow> Returns (int n)))"

text \<open>
  \<^verbatim>\<open>float(s)\<close> on a string. Underscores may stand between two digits and are taken
  out. What is left is a sign and then \<^verbatim>\<open>inf\<close>, \<^verbatim>\<open>infinity\<close> or \<^verbatim>\<open>nan\<close> in
  any case of letters, or a decimal numeral: digits with at most one point among them,
  at least one digit, and an exponent that has digits. The value is the nearest double.
\<close>

fun without_underscores :: "char \<Rightarrow> string \<Rightarrow> string option" where
  "without_underscores prev [] = (if prev = CHR ''_'' then None else Some [])"
| "without_underscores prev (c # cs) =
     (if c = CHR ''_'' then (if is_digit prev then without_underscores c cs else None)
      else if prev = CHR ''_'' \<and> \<not> is_digit c then None
      else map_option ((#) c) (without_underscores c cs))"

definition lower :: "char \<Rightarrow> char" where
  "lower c = (if 65 \<le> (of_char c :: nat) \<and> (of_char c :: nat) \<le> 90
              then char_of ((of_char c :: nat) + 32) else c)"

definition digits_nat :: "string \<Rightarrow> nat" where
  "digits_nat ds = foldl (\<lambda>a c. a * 10 + digit_val c) 0 ds"

definition split_sign :: "string \<Rightarrow> bool \<times> string" where
  "split_sign s =
     (case s of
        [] \<Rightarrow> (False, [])
      | c # cs \<Rightarrow> if c = CHR ''-'' then (True, cs) else if c = CHR ''+'' then (False, cs) else (False, s))"

text \<open>The exponent in front of a string, and what follows it; without digits it is not
  an exponent.\<close>

definition exponent :: "string \<Rightarrow> int \<times> string" where
  "exponent s =
     (case s of
        [] \<Rightarrow> (0, [])
      | c # cs \<Rightarrow>
          if c = CHR ''e'' \<or> c = CHR ''E'' then
            (let (negative, ds) = split_sign cs
             in if takeWhile is_digit ds = [] then (0, s)
                else ((if negative then - 1 else 1) * int (digits_nat (takeWhile is_digit ds)),
                      dropWhile is_digit ds))
          else (0, s))"

definition decimal_literal :: "bool \<Rightarrow> string \<Rightarrow> pyfloat option" where
  "decimal_literal negative s =
     (let ip = takeWhile is_digit s; r1 = dropWhile is_digit s;
          (fp, r2) =
            (case r1 of
               [] \<Rightarrow> ([], [])
             | c # r \<Rightarrow>
                 if c = CHR ''.'' then (takeWhile is_digit r, dropWhile is_digit r) else ([], r1))
      in if ip = [] \<and> fp = [] then None
         else
           (let (ex, r3) = exponent r2; m = of_nat (digits_nat (ip @ fp)); p = ex - int (length fp)
            in if r3 \<noteq> [] then None
               else Some (nearest_double negative
                            (if 0 \<le> p then m * 10 ^ nat p else m / 10 ^ nat (- p)))))"

definition float_literal :: "string \<Rightarrow> pyfloat option" where
  "float_literal s =
     (let (negative, u) = split_sign s; word = map lower u
      in if word = ''inf'' \<or> word = ''infinity'' then Some (if negative then NegInf else PosInf)
         else if word = ''nan'' then Some NaN
         else decimal_literal negative u)"

definition float_of_str :: "string \<Rightarrow> pyfloat result" where
  "float_of_str s =
     (let t = strip (to_ascii s)
      in case (if CHR ''_'' \<in> set t then without_underscores (CHR 0x00) t else Some t) of
           None \<Rightarrow> Raises ValueError
         | Some u \<Rightarrow> (case float_literal u of None \<Rightarrow> Raises ValueError | Some x \<Rightarrow> Returns x))"

text \<open>
  \<^verbatim>\<open>float(x)\<close>, which \<^verbatim>\<open>Gauge.set\<close> applies to its argument: a float is taken as
  it is, an integer is converted, a string is read, and \<^verbatim>\<open>None\<close>, a list and a dict
  raise \<^verbatim>\<open>TypeError\<close>.
\<close>

fun py_float :: "json \<Rightarrow> pyfloat result" where
  "py_float (JInt n) = float_of_int n"
| "py_float (JBool b) = Returns (Finite (if b then 1 else 0))"
| "py_float (JFloat x) = Returns x"
| "py_float (JStr s) = float_of_str s"
| "py_float _ = Raises TypeError"

section \<open>The state of the exporter\<close>

text \<open>
  Each call of \<^verbatim>\<open>log\<close> passes one formatted message to \<^verbatim>\<open>print\<close>. A message is
  kept as the format string it comes from, with the values put into it; the time stamp
  in front of it is left out.
\<close>

datatype log_message =
    Error_fetching_Nimiq_price py_exception
  | Error_fetching_data py_exception
  | No_stakers_found
  | Total_stake_across number nat
  | Highest_stake json
  | Lowest_stake json
  | Missing_expected_key py_exception
  | Error_processing_data py_exception
  | Starting_exporter
  | Fetching_from_address string
  | Fetch_interval int
  | Scraping_data
  | Current_Nimiq_price json
  | Next_scrape_in int

text \<open>What the program does to the outside, in the order it does it.\<close>

datatype event =
    Print log_message
  | HttpGet string
  | StartHttpServer nat
  | Sleep int

text \<open>
  The four gauges are module globals. A gauge holds a float: \<^verbatim>\<open>Gauge.set(value)\<close>
  stores \<^verbatim>\<open>float(value)\<close>. A gauge without labels starts at zero; the labelled gauge
  \<^verbatim>\<open>staker_stake\<close> has one series for each label it was asked for.
\<close>

record state =
  total_stake_gauge :: pyfloat
  staker_stake_gauge :: "string \<rightharpoonup> pyfloat"
  total_stakers_gauge :: pyfloat
  current_nimiq_price_gauge :: pyfloat
  trace :: "event list"

definition initial_state :: state where
  "initial_state =
     \<lparr>total_stake_gauge = Finite 0, staker_stake_gauge = Map.empty,
      total_stakers_gauge = Finite 0, current_nimiq_price_gauge = Finite 0, trace = []\<rparr>"

definition emit :: "event \<Rightarrow> state \<Rightarrow> state" where
  "emit ev st = st\<lparr>trace := trace st @ [ev]\<rparr>"

definition log :: "log_message \<Rightarrow> state \<Rightarrow> state" where
  "log message st = emit (Print message) st"

section \<open>Configuration\<close>

definition DEFAULT_ADDRESS :: string where
  "DEFAULT_ADDRESS = ''NQ97+H1NR+S3X0+CVFQ+VJ9Y+9A0Y+FRQN+Q6EU+D0PL''"

definition DEFAULT_INTERVAL :: int where
  "DEFAULT_INTERVAL = 300"

record config =
  address :: string
  interval :: int
  url :: string

text \<open>
  Lines 12 to 16, run once when the module is loaded. \<^verbatim>\<open>os.getenv\<close> gives the
  default only when the variable is not set; \<^verbatim>\<open>int\<close> of the default is the default,
  \<^verbatim>\<open>int\<close> of a string may raise, and then the program does not start.
\<close>

definition load_config :: "(string \<rightharpoonup> string) \<Rightarrow> config result" where
  "load_config env =
     (let address_value = (case env ''NIMIQ_ADDRESS'' of None \<Rightarrow> DEFAULT_ADDRESS | Some a \<Rightarrow> a) in
      case (case env ''FETCH_INTERVAL'' of None \<Rightarrow> Returns DEFAULT_INTERVAL | Some s \<Rightarrow> py_int s) of
        Raises e \<Rightarrow> Raises e
      | Returns interval_value \<Rightarrow>
          Returns \<lparr>address = address_value, interval = interval_value,
                   url = ''https://v2.nimiqwatch.com/api/v2/registration/'' @ address_value\<rparr>)"

section \<open>The two fetchers\<close>

text \<open>
  The HTTP client is not part of the repository. What \<^verbatim>\<open>requests.get\<close>,
  \<^verbatim>\<open>raise_for_status\<close> and \<^verbatim>\<open>response.json()\<close> do together is an input of the
  model: they return the parsed body or raise. A request that never answers (the source
  sets no timeout) is not among these outcomes. The handler of both fetchers catches the
  class \<^verbatim>\<open>RequestException\<close> and nothing else.
\<close>

definition PRICE_URL :: string where
  "PRICE_URL = ''https://api.coingecko.com/api/v3/simple/price?ids=nimiq-2&vs_currencies=usd''"

definition fetch_nimiq_price :: "json result \<Rightarrow> state \<Rightarrow> json result \<times> state" where
  "fetch_nimiq_price response st =
     (let st1 = emit (HttpGet PRICE_URL) st;
          body_result =
            (case response of
               Raises e \<Rightarrow> Raises e
             | Returns body \<Rightarrow>
                 (case py_get body ''nimiq-2'' (JObj []) of
                    Raises e \<Rightarrow> Raises e
                  | Returns quote \<Rightarrow> py_get quote ''usd'' JNull))
      in case body_result of
           Raises (RequestException e) \<Rightarrow>
             (Returns JNull, log (Error_fetching_Nimiq_price (RequestException e)) st1)
         | Raises e \<Rightarrow> (Raises e, st1)
         | Returns price \<Rightarrow> (Returns price, st1))"

definition fetch_registration_data :: "string \<Rightarrow> json result \<Rightarrow> state \<Rightarrow> json result \<times> state" where
  "fetch_registration_data api_url response st =
     (let st1 = emit (HttpGet api_url) st
      in case response of
           Raises (RequestException e) \<Rightarrow>
             (Returns JNull, log (Error_fetching_data (RequestException e)) st1)
         | Raises e \<Rightarrow> (Raises e, st1)
         | Returns body \<Rightarrow> (Returns body, st1))"

section \<open>\<^verbatim>\<open>process_data\<close>\<close>

text \<open>
  The loop of lines 65 to 69. One round reads \<^verbatim>\<open>staker["stake"]\<close>, appends it to
  \<^verbatim>\<open>stakes\<close>, adds it to \<^verbatim>\<open>total_stake\<close>, reads \<^verbatim>\<open>staker["address"]\<close> and
  sets the series of that label to the float of the stake. An exception leaves the loop;
  the gauges written in earlier rounds stay written.
\<close>

fun stakers_loop :: "json list \<Rightarrow> number \<Rightarrow> json list \<Rightarrow> state \<Rightarrow> (number \<times> json list) result \<times> state" where
  "stakers_loop [] total_stake stakes st = (Returns (total_stake, stakes), st)"
| "stakers_loop (staker # rest) total_stake stakes st =
     (case py_getitem staker ''stake'' of
        Raises e \<Rightarrow> (Raises e, st)
      | Returns stake \<Rightarrow>
          (case py_add total_stake stake of
             Raises e \<Rightarrow> (Raises e, st)
           | Returns total_stake' \<Rightarrow>
               (case py_getitem staker ''address'' of
                  Raises e \<Rightarrow> (Raises e, st)
                | Returns label \<Rightarrow>
                    (case py_float stake of
                       Raises e \<Rightarrow> (Raises e, st)
                     | Returns v \<Rightarrow>
                         stakers_loop rest total_stake' (stakes @ [stake])
                           (st\<lparr>staker_stake_gauge := (staker_stake_gauge st)(py_str label \<mapsto> v)\<rparr>)))))"

text \<open>The body of the \<^verbatim>\<open>try\<close>, lines 53 to 79.\<close>

definition process_data_try :: "json \<Rightarrow> state \<Rightarrow> unit result \<times> state" where
  "process_data_try data st =
     (case py_get data ''stakers'' (JArr []) of
        Raises e \<Rightarrow> (Raises e, st)
      | Returns stakers \<Rightarrow>
          if \<not> py_truthy stakers then (Returns (), log No_stakers_found st)
          else
            (case py_len stakers of
               Raises e \<Rightarrow> (Raises e, st)
             | Returns n \<Rightarrow>
                 (case float_of_int (int n) of
                    Raises e \<Rightarrow> (Raises e, st)
                  | Returns stakers_float \<Rightarrow>
                      (let st1 = st\<lparr>total_stakers_gauge := stakers_float\<rparr> in
                       case py_iter stakers of
                         Raises e \<Rightarrow> (Raises e, st1)
                       | Returns items \<Rightarrow>
                           (case stakers_loop items (PyInt 0) [] st1 of
                              (Raises e, st2) \<Rightarrow> (Raises e, st2)
                            | (Returns (total_stake, stakes), st2) \<Rightarrow>
                                (case py_max stakes of
                                   Raises e \<Rightarrow> (Raises e, st2)
                                 | Returns highest_stake \<Rightarrow>
                                     (case py_min stakes of
                                        Raises e \<Rightarrow> (Raises e, st2)
                                      | Returns lowest_stake \<Rightarrow>
                                          (case number_float total_stake of
                                             Raises e \<Rightarrow> (Raises e, st2)
                                           | Returns total_float \<Rightarrow>
                                               (Returns (),
                                                log (Lowest_stake lowest_stake)
                                                  (log (Highest_stake highest_stake)
                                                    (log (Total_stake_across total_stake n)
                                                      (st2\<lparr>total_stake_gauge := total_float\<rparr>))))))))))))"

text \<open>The two handlers, lines 81 to 84: every exception ends in a log line.\<close>

definition process_data :: "json \<Rightarrow> state \<Rightarrow> state" where
  "process_data data st =
     (case process_data_try data st of
        (Returns u, st') \<Rightarrow> st'
      | (Raises (KeyError k), st') \<Rightarrow> log (Missing_expected_key (KeyError k)) st'
      | (Raises e, st') \<Rightarrow> log (Error_processing_data e) st')"

section \<open>The scrape loop of \<^verbatim>\<open>main\<close>\<close>

text \<open>
  One round of \<^verbatim>\<open>while True\<close>, lines 96 to 117, in two halves: the registration half
  (lines 96 to 104) and the price half (lines 106 to 117). The two responses of the round
  are its inputs. A round that raises gives the exception and the state reached. The event
  \<open>Sleep\<close> stands for a call of \<^verbatim>\<open>time.sleep\<close> that has returned.
\<close>

definition scrape_registration :: "config \<Rightarrow> json result \<Rightarrow> state \<Rightarrow> unit result \<times> state" where
  "scrape_registration cfg registration st =
     (case fetch_registration_data (url cfg) registration (log Scraping_data st) of
        (Raises e, st1) \<Rightarrow> (Raises e, st1)
      | (Returns data, st1) \<Rightarrow>
          (Returns (), if py_truthy data then process_data data st1 else st1))"

definition scrape_price :: "config \<Rightarrow> json result \<Rightarrow> state \<Rightarrow> unit result \<times> state" where
  "scrape_price cfg price_response st =
     (case fetch_nimiq_price price_response st of
        (Raises e, st1) \<Rightarrow> (Raises e, st1)
      | (Returns price, st1) \<Rightarrow>
          (case (if py_truthy price then
                   (case py_float price of
                      Raises e \<Rightarrow> (Raises e, st1)
                    | Returns v \<Rightarrow>
                        (Returns (), log (Current_Nimiq_price price) (st1\<lparr>current_nimiq_price_gauge := v\<rparr>)))
                 else (Returns (), st1)) of
             (Raises e, st2) \<Rightarrow> (Raises e, st2)
           | (Returns u, st2) \<Rightarrow>
               (let st3 = log (Next_scrape_in (interval cfg)) st2 in
                case py_sleep (interval cfg) of
                  Raises e \<Rightarrow> (Raises e, st3)
                | Returns u \<Rightarrow> (Returns (), emit (Sleep (interval cfg)) st3))))"

definition scrape_cycle :: "config \<Rightarrow> json result \<Rightarrow> json result \<Rightarrow> state \<Rightarrow> unit result \<times> state" where
  "scrape_cycle cfg registration price_response st =
     (case scrape_registration cfg registration st of
        (Raises e, st1) \<Rightarrow> (Raises e, st1)
      | (Returns u, st1) \<Rightarrow> scrape_price cfg price_response st1)"

text \<open>
  The loop never ends by itself. It is run here on the responses of finitely many rounds
  and stops early when a round raises.
\<close>

fun scrape_loop :: "config \<Rightarrow> (json result \<times> json result) list \<Rightarrow> state \<Rightarrow> unit result \<times> state" where
  "scrape_loop cfg [] st = (Returns (), st)"
| "scrape_loop cfg ((registration, price_response) # rounds) st =
     (case scrape_cycle cfg registration price_response st of
        (Raises e, st1) \<Rightarrow> (Raises e, st1)
      | (Returns u, st1) \<Rightarrow> scrape_loop cfg rounds st1)"

definition main :: "config \<Rightarrow> (json result \<times> json result) list \<Rightarrow> state \<Rightarrow> unit result \<times> state" where
  "main cfg rounds st =
     scrape_loop cfg rounds
       (emit (StartHttpServer 8000)
         (log (Fetch_interval (interval cfg))
           (log (Fetching_from_address (address cfg))
             (log Starting_exporter st))))"

section \<open>Notions used in the statements\<close>

text \<open>
  The integers that \<^verbatim>\<open>float\<close> converts: those nearer to a double than to
  \<open>2 ^ 1024\<close>. Up to \<open>2 ^ 53\<close> in magnitude the double is the integer itself.
\<close>

definition float_range :: "int \<Rightarrow> bool" where
  "float_range n = (\<bar>n\<bar> < 2 ^ 1024 - 2 ^ 970)"

text \<open>
  A plain stake: an integer of magnitude at most \<open>2 ^ 53\<close>, or a float that is
  neither an infinity nor \<^verbatim>\<open>nan\<close>. \<open>stake_float\<close> is the float of such a stake and
  \<open>stake_value\<close> its value.
\<close>

definition plain_stake :: "json \<Rightarrow> bool" where
  "plain_stake v =
     (case v of
        JInt n \<Rightarrow> \<bar>n\<bar> \<le> 2 ^ 53
      | JFloat (Finite q) \<Rightarrow> True
      | JFloat NegZero \<Rightarrow> True
      | _ \<Rightarrow> False)"

definition stake_float :: "json \<Rightarrow> pyfloat" where
  "stake_float v = (case v of JInt n \<Rightarrow> Finite (of_int n) | JFloat x \<Rightarrow> x | _ \<Rightarrow> Finite 0)"

definition stake_value :: "json \<Rightarrow> rat" where
  "stake_value v = float_value (stake_float v)"

text \<open>
  A total is modest after \<open>k\<close> entries when it is a float or an integer of magnitude
  at most \<open>k * 2 ^ 53\<close>.
\<close>

definition modest :: "nat \<Rightarrow> number \<Rightarrow> bool" where
  "modest k t = (case t of PyInt a \<Rightarrow> \<bar>a\<bar> \<le> int k * 2 ^ 53 | PyFloat x \<Rightarrow> True)"

text \<open>The two fields of an entry.\<close>

definition entry_stake :: "json \<Rightarrow> json" where
  "entry_stake staker =
     (case staker of
        JObj kvs \<Rightarrow> (case map_of kvs ''stake'' of Some v \<Rightarrow> v | None \<Rightarrow> JNull)
      | _ \<Rightarrow> JNull)"

definition label_of :: "json \<Rightarrow> string" where
  "label_of staker =
     (case staker of
        JObj kvs \<Rightarrow> (case map_of kvs ''address'' of Some a \<Rightarrow> py_str a | None \<Rightarrow> [])
      | _ \<Rightarrow> [])"

text \<open>
  A staker entry as the registration API documents it: an object with an \<^verbatim>\<open>address\<close>
  and a \<^verbatim>\<open>stake\<close> that is a number, here a plain one. In a labelled entry the address
  is a string, in an integer entry the stake is an integer that \<^verbatim>\<open>float\<close> converts.
\<close>

definition valid_staker :: "json \<Rightarrow> bool" where
  "valid_staker staker =
     (case staker of
        JObj kvs \<Rightarrow>
          (case (map_of kvs ''address'', map_of kvs ''stake'') of
             (Some a, Some v) \<Rightarrow> plain_stake v
           | _ \<Rightarrow> False)
      | _ \<Rightarrow> False)"

definition labelled_staker :: "json \<Rightarrow> bool" where
  "labelled_staker staker =
     (case staker of
        JObj kvs \<Rightarrow>
          (case (map_of kvs ''address'', map_of kvs ''stake'') of
             (Some (JStr a), Some v) \<Rightarrow> plain_stake v
           | _ \<Rightarrow> False)
      | _ \<Rightarrow> False)"

definition integer_staker :: "json \<Rightarrow> bool" where
  "integer_staker staker =
     (case staker of
        JObj kvs \<Rightarrow>
          (case (map_of kvs ''address'', map_of kvs ''stake'') of
             (Some a, Some (JInt n)) \<Rightarrow> float_range n
           | _ \<Rightarrow> False)
      | _ \<Rightarrow> False)"

definition stake_of :: "json \<Rightarrow> int" where
  "stake_of staker = (case entry_stake staker of JInt n \<Rightarrow> n | _ \<Rightarrow> 0)"

text \<open>The write of one valid entry to the labelled gauge.\<close>

definition set_series :: "json \<Rightarrow> (string \<rightharpoonup> pyfloat) \<Rightarrow> (string \<rightharpoonup> pyfloat)" where
  "set_series staker m = m(label_of staker \<mapsto> stake_float (entry_stake staker))"

definition stakers_of :: "json \<Rightarrow> json option" where
  "stakers_of data = (case data of JObj kvs \<Rightarrow> map_of kvs ''stakers'' | _ \<Rightarrow> None)"

text \<open>
  A response whose \<^verbatim>\<open>stakers\<close> field is the non-empty list \<open>ss\<close> of valid entries,
  and one whose entries are integer entries. The list has at most \<open>2 ^ 53\<close> entries,
  as every list has that a machine holds; a float counts no further.
\<close>

definition valid_response :: "json \<Rightarrow> json list \<Rightarrow> bool" where
  "valid_response data ss =
     (stakers_of data = Some (JArr ss) \<and> ss \<noteq> [] \<and> length ss \<le> 2 ^ 53
      \<and> list_all valid_staker ss)"

definition integer_response :: "json \<Rightarrow> json list \<Rightarrow> bool" where
  "integer_response data ss =
     (stakers_of data = Some (JArr ss) \<and> ss \<noteq> [] \<and> length ss \<le> 2 ^ 53
      \<and> list_all integer_staker ss)"

text \<open>A response with the entries \<open>ss\<close>, and an entry with a stake.\<close>

definition response_of :: "json list \<Rightarrow> json" where
  "response_of ss = JObj [(''stakers'', JArr ss)]"

definition entry :: "string \<Rightarrow> json \<Rightarrow> json" where
  "entry a v = JObj [(''address'', JStr a), (''stake'', v)]"

text \<open>The scenario of the specification: A stakes 100 and B stakes 50.\<close>

definition staker_A :: json where
  "staker_A = JObj [(''address'', JStr ''A''), (''stake'', JInt 100)]"

definition staker_B :: json where
  "staker_B = JObj [(''address'', JStr ''B''), (''stake'', JInt 50)]"

definition scenario :: json where
  "scenario = JObj [(''stakers'', JArr [staker_A, staker_B])]"

text \<open>An entry that lacks one of the two fields.\<close>

definition malformed_staker :: "json \<Rightarrow> bool" where
  "malformed_staker staker =
     (case staker of
        JObj kvs \<Rightarrow> map_of kvs ''address'' = None \<or> map_of kvs ''stake'' = None
      | _ \<Rightarrow> False)"

text \<open>
  The key whose absence one round of the loop runs into: \<^verbatim>\<open>stake\<close> is read first,
  \<^verbatim>\<open>address\<close> after the stake, a plain one, has been added to the total.
\<close>

definition missing_key :: "json \<Rightarrow> string option" where
  "missing_key staker =
     (case staker of
        JObj kvs \<Rightarrow>
          (case map_of kvs ''stake'' of
             None \<Rightarrow> Some ''stake''
           | Some v \<Rightarrow>
               if plain_stake v \<and> map_of kvs ''address'' = None then Some ''address'' else None)
      | _ \<Rightarrow> None)"

text \<open>A response whose second entry has no \<^verbatim>\<open>stake\<close>.\<close>

definition staker_without_stake :: json where
  "staker_without_stake = JObj [(''address'', JStr ''B'')]"

definition broken_response :: json where
  "broken_response = JObj [(''stakers'', JArr [staker_A, staker_without_stake])]"

text \<open>The configuration of an empty environment.\<close>

definition default_config :: config where
  "default_config =
     \<lparr>address = DEFAULT_ADDRESS, interval = DEFAULT_INTERVAL,
      url = ''https://v2.nimiqwatch.com/api/v2/registration/'' @ DEFAULT_ADDRESS\<rparr>"

text \<open>
  An outcome of the HTTP client that the handlers of the fetchers cover: a parsed body, or
  an exception of the class \<^verbatim>\<open>RequestException\<close>.
\<close>

definition request_outcome :: "json result \<Rightarrow> bool" where
  "request_outcome response =
     (case response of
        Returns body \<Rightarrow> True
      | Raises (RequestException cause) \<Rightarrow> True
      | Raises _ \<Rightarrow> False)"

text \<open>
  The price API answers \<^verbatim>\<open>{"nimiq-2": {"usd": number}}\<close>. \<open>usd_price\<close> is the
  quoted value of such a body; \<open>price_shaped\<close> holds of a body that is an object whose
  \<^verbatim>\<open>nimiq-2\<close> field, when present, is an object whose \<^verbatim>\<open>usd\<close> field, when present,
  is a float or an integer that \<^verbatim>\<open>float\<close> converts.
\<close>

definition usd_price :: "json \<Rightarrow> json option" where
  "usd_price body =
     (case body of
        JObj kvs \<Rightarrow>
          (case map_of kvs ''nimiq-2'' of
             Some (JObj q) \<Rightarrow> map_of q ''usd''
           | _ \<Rightarrow> None)
      | _ \<Rightarrow> None)"

definition price_shaped :: "json \<Rightarrow> bool" where
  "price_shaped body =
     (case body of
        JObj kvs \<Rightarrow>
          (case map_of kvs ''nimiq-2'' of
             None \<Rightarrow> True
           | Some (JObj q) \<Rightarrow>
               (case map_of q ''usd'' of
                  None \<Rightarrow> True
                | Some (JInt p) \<Rightarrow> float_range p
                | Some (JFloat x) \<Rightarrow> True
                | Some _ \<Rightarrow> False)
           | Some _ \<Rightarrow> False)
      | _ \<Rightarrow> False)"

definition price_outcome :: "json result \<Rightarrow> bool" where
  "price_outcome response =
     (case response of
        Returns body \<Rightarrow> price_shaped body
      | Raises (RequestException cause) \<Rightarrow> True
      | Raises _ \<Rightarrow> False)"

text \<open>A body that quotes an integer, and one that quotes a decimal.\<close>

definition price_body :: "int \<Rightarrow> json" where
  "price_body p = JObj [(''nimiq-2'', JObj [(''usd'', JInt p)])]"

definition decimal_price_body :: "pyfloat \<Rightarrow> json" where
  "decimal_price_body x = JObj [(''nimiq-2'', JObj [(''usd'', JFloat x)])]"

text \<open>The lengths that \<^verbatim>\<open>time.sleep\<close> accepts.\<close>

definition sleep_range :: "int \<Rightarrow> bool" where
  "sleep_range secs = (0 \<le> secs \<and> secs \<le> 9223372036)"

text \<open>The labels under which the entries of a response are written.\<close>

definition entry_label :: "json \<Rightarrow> string list" where
  "entry_label staker =
     (case staker of
        JObj kvs \<Rightarrow> (case map_of kvs ''address'' of None \<Rightarrow> [] | Some a \<Rightarrow> [py_str a])
      | _ \<Rightarrow> [])"

definition response_labels :: "json result \<Rightarrow> string list" where
  "response_labels registration =
     (case registration of
        Returns data \<Rightarrow>
          (case stakers_of data of
             Some (JArr ss) \<Rightarrow> concat (map entry_label ss)
           | _ \<Rightarrow> [])
      | Raises e \<Rightarrow> [])"

text \<open>A later response in which only B is left, and the state after the scenario.\<close>

definition only_B :: json where
  "only_B = JObj [(''stakers'', JArr [JObj [(''address'', JStr ''B''), (''stake'', JInt 70)]])]"

definition after_scenario :: state where
  "after_scenario =
     snd (scrape_cycle default_config (Returns scenario) (Raises (RequestException ''timeout''))
            initial_state)"

text \<open>The interval of a start that succeeded.\<close>

definition interval_of :: "config result \<Rightarrow> int option" where
  "interval_of r = (case r of Returns cfg \<Rightarrow> Some (interval cfg) | Raises e \<Rightarrow> None)"

definition positive_interval :: "config result \<Rightarrow> bool" where
  "positive_interval r = (case r of Returns cfg \<Rightarrow> 0 < interval cfg | Raises e \<Rightarrow> False)"

section \<open>The float of an integer\<close>

lemma bit_length_bounds:
  "0 < a \<Longrightarrow> 2 ^ (bit_length a - 1) \<le> a \<and> a < 2 ^ bit_length a"
proof (induction a rule: bit_length.induct)
  case (1 n)
  show ?case
  proof (cases "n div 2 = 0")
    case True
    with "1.prems" have "n = 1" by (simp add: div_eq_0_iff) 
    then show ?thesis by (simp add: bit_length.simps)
  next
    case False
    then have pos: "0 < n div 2" by simp
    from "1.IH" [OF _ pos] "1.prems"
    have ih: "2 ^ (bit_length (n div 2) - 1) \<le> n div 2" "n div 2 < 2 ^ bit_length (n div 2)"
      by simp_all
    have bl: "bit_length n = Suc (bit_length (n div 2))"
      using "1.prems" by (subst bit_length.simps) simp
    have "0 < bit_length (n div 2)"
      using pos by (subst bit_length.simps) simp
    then obtain k where k: "bit_length (n div 2) = Suc k" by (cases "bit_length (n div 2)") auto
    from ih k have "2 * 2 ^ k \<le> n" "n < 2 * 2 ^ Suc k" by simp_all
    then show ?thesis by (simp add: bl k)
  qed
qed

lemma bit_length_eq:
  assumes "2 ^ k \<le> a" and "a < 2 ^ Suc k"
  shows "bit_length a = Suc k"
proof -
  from assms have pos: "0 < a" by (metis less_le_trans zero_less_numeral zero_less_power)
  from bit_length_bounds [OF pos]
  have b: "2 ^ (bit_length a - 1) \<le> a" "a < 2 ^ bit_length a" by simp_all
  have "k < bit_length a"
    using assms(1) b(2) by (metis le_less_trans nat_power_less_imp_less pos2)
  moreover have "bit_length a - 1 < Suc k"
    using assms(2) b(1) by (metis le_less_trans nat_power_less_imp_less pos2)
  ultimately show ?thesis by simp
qed

lemma bit_length_le:
  assumes "a < 2 ^ k"
  shows "bit_length a \<le> k"
proof (cases "a = 0")
  case True
  then show ?thesis by (simp add: bit_length.simps)
next
  case False
  then have pos: "0 < a" by simp
  from bit_length_bounds [OF pos] have "2 ^ (bit_length a - 1) \<le> a" by (rule conjunct1)
  from this assms have "2 ^ (bit_length a - 1) < (2::nat) ^ k"
    by (rule le_less_trans)
  then have "bit_length a - 1 < k" by (metis nat_power_less_imp_less pos2)
  then show ?thesis by simp
qed

lemma round_to_bits_small:
  assumes "a \<le> 2 ^ 53"
  shows "round_to_bits a = a"
proof (cases "a < 2 ^ 53")
  case True
  from bit_length_le [OF True] have "bit_length a - 53 = 0" by simp
  then show ?thesis by (simp add: round_to_bits_def)
next
  case False
  with assms have a: "a = 2 ^ 53" by simp
  have "bit_length a = Suc 53" by (rule bit_length_eq) (simp_all add: a)
  then have e: "bit_length a - 53 = 1" by simp
  show ?thesis unfolding round_to_bits_def e by (simp add: a)
qed

lemma round_to_bits_le: "round_to_bits a \<le> 2 * a"
proof (cases "bit_length a - 53")
  case 0
  then show ?thesis by (simp add: round_to_bits_def)
next
  case (Suc e')
  then have big: "53 < bit_length a" by simp
  then have pos: "0 < a" by (cases "a = 0") (simp_all add: bit_length.simps)
  let ?e = "bit_length a - 53"
  from bit_length_bounds [OF pos] have "2 ^ (bit_length a - 1) \<le> a" by simp
  moreover have "(2::nat) ^ ?e \<le> 2 ^ (bit_length a - 1)"
    by (rule power_increasing) simp_all
  ultimately have p: "2 ^ ?e \<le> a" by (rule order_trans [rotated])
  have q: "a div 2 ^ ?e * 2 ^ ?e \<le> a" by simp
  have "round_to_bits a \<le> (a div 2 ^ ?e + 1) * 2 ^ ?e"
    by (simp add: round_to_bits_def Let_def)
  also have "\<dots> = a div 2 ^ ?e * 2 ^ ?e + 2 ^ ?e" by (simp add: algebra_simps)
  also have "\<dots> \<le> a + a" using p q by (rule add_mono[rotated]) 
  finally show ?thesis by simp
qed

lemma round_to_bits_ge:
  assumes "2 ^ 1024 \<le> a"
  shows "2 ^ 1024 \<le> round_to_bits a"
proof -
  from assms have pos: "0 < a" by (metis less_le_trans zero_less_numeral zero_less_power)
  let ?L = "bit_length a"
  let ?e = "?L - 53"
  from bit_length_bounds [OF pos] have b: "2 ^ (?L - 1) \<le> a" "a < 2 ^ ?L" by simp_all
  from assms b(2) have "(2::nat) ^ 1024 < 2 ^ ?L" by simp
  then have L: "1024 < ?L" by (metis nat_power_less_imp_less pos2)
  have "?L - 1 = 52 + ?e" using L by simp
  then have "2 ^ 52 * 2 ^ ?e = (2::nat) ^ (?L - 1)"
    by (simp only: power_add)
  with b(1) have "2 ^ 52 * 2 ^ ?e \<le> a" by simp
  then have "2 ^ 52 \<le> a div 2 ^ ?e"
    by (simp add: less_eq_div_iff_mult_less_eq)
  then have "2 ^ 52 * 2 ^ ?e \<le> a div 2 ^ ?e * 2 ^ ?e" by simp
  moreover have "a div 2 ^ ?e * 2 ^ ?e \<le> round_to_bits a"
    by (simp add: round_to_bits_def Let_def)
  moreover have "(2::nat) ^ 1024 \<le> 2 ^ (?L - 1)"
    using L by (intro power_increasing) simp_all
  ultimately show ?thesis
    using \<open>2 ^ 52 * 2 ^ ?e = (2::nat) ^ (?L - 1)\<close> by linarith
qed


lemma round_to_bits_at:
  assumes "bit_length a - 53 = e"
  shows "round_to_bits a =
      (if 2 ^ e < 2 * (a mod 2 ^ e) \<or> (2 * (a mod 2 ^ e) = 2 ^ e \<and> odd (a div 2 ^ e))
       then (a div 2 ^ e + 1) * 2 ^ e else a div 2 ^ e * 2 ^ e)"
  unfolding round_to_bits_def assms Let_def ..

lemma round_to_bits_range:
  assumes "a < 2 ^ 1024 - 2 ^ 970"
  shows "round_to_bits a < 2 ^ 1024"
proof (cases "a < 2 ^ 1023")
  case True
  have "round_to_bits a \<le> 2 * a" by (rule round_to_bits_le)
  also have "\<dots> < 2 * 2 ^ 1023" using True by simp
  finally show ?thesis by simp
next
  case False
  define P :: nat where "P = 2 ^ 970"
  have P: "0 < P" by (simp add: P_def)
  have p971: "(2::nat) ^ 971 = 2 * P" by (simp add: P_def)
  have p1024: "(2::nat) ^ 1024 = 18014398509481984 * P"
  proof -
    have "(2::nat) ^ 1024 = 2 ^ 54 * 2 ^ 970" by (simp only: power_add [symmetric]) simp
    then show ?thesis by (simp add: P_def)
  qed
  from False have lo: "2 ^ 1023 \<le> a" by simp
  from assms have hi: "a < 2 ^ Suc 1023" by simp
  have "bit_length a = Suc 1023" using lo hi by (rule bit_length_eq)
  then have e: "bit_length a - 53 = 971" by simp
  define q where "q = a div (2 * P)"
  define r where "r = a mod (2 * P)"
  have a: "a = q * (2 * P) + r" unfolding q_def r_def by (rule div_mult_mod_eq [symmetric])
  have r: "r < 2 * P" using P by (simp add: r_def)
  from assms have bound: "a < 18014398509481984 * P - P" by (simp add: p1024 P_def)
  have rounded: "round_to_bits a =
      (if 2 * P < 2 * r \<or> (2 * r = 2 * P \<and> odd q) then (q + 1) * (2 * P) else q * (2 * P))"
    unfolding q_def r_def by (rule round_to_bits_at [OF e, unfolded p971])
  show ?thesis
  proof (cases "2 * P < 2 * r \<or> (2 * r = 2 * P \<and> odd q)")
    case False
    then have "round_to_bits a = q * (2 * P)" unfolding rounded by (rule if_not_P)
    also have "\<dots> \<le> a" by (simp add: a)
    also have "\<dots> < 2 ^ 1024" using assms by simp
    finally show ?thesis .
  next
    case True
    then have half: "P \<le> r" by auto
    have "q + 1 < 9007199254740992"
    proof (rule ccontr)
      assume "\<not> q + 1 < 9007199254740992"
      then have "9007199254740991 \<le> q" by simp
      then have "9007199254740991 * (2 * P) \<le> q * (2 * P)" by (rule mult_right_mono) simp
      with a half bound show False by simp
    qed
    then have "q + 1 \<le> 9007199254740991" by simp
    then have "(q + 1) * (2 * P) \<le> 9007199254740991 * (2 * P)" by (rule mult_right_mono) simp
    also have "\<dots> < 18014398509481984 * P" using P by simp
    finally have "(q + 1) * (2 * P) < 2 ^ 1024" by (simp only: p1024)
    moreover from True have "round_to_bits a = (q + 1) * (2 * P)"
      unfolding rounded by (rule if_P)
    ultimately show ?thesis by (simp only:)
  qed
qed

text \<open>An integer below the largest double plus half a step has a float.\<close>

lemma float_of_int_range:
  assumes "\<bar>n\<bar> < 2 ^ 1024 - 2 ^ 970"
  shows "float_of_int n =
           Returns (Finite (if n < 0 then - of_nat (round_to_bits (nat \<bar>n\<bar>))
                            else of_nat (round_to_bits (nat \<bar>n\<bar>))))"
proof -
  have "nat \<bar>n\<bar> < 2 ^ 1024 - 2 ^ 970"
  proof -
    have "int (nat \<bar>n\<bar>) < int (2 ^ 1024 - 2 ^ 970)" using assms by simp
    then show ?thesis by (simp only: of_nat_less_iff)
  qed
  from round_to_bits_range [OF this] show ?thesis
    by (simp add: float_of_int_def Let_def)
qed

lemma float_of_int_exact:
  assumes "\<bar>n\<bar> \<le> 2 ^ 53"
  shows "float_of_int n = Returns (Finite (of_int n))"
proof -
  have "nat \<bar>n\<bar> \<le> 2 ^ 53" using assms by simp
  from round_to_bits_small [OF this] have r: "round_to_bits (nat \<bar>n\<bar>) = nat \<bar>n\<bar>" .
  have "(2::nat) ^ 53 < 2 ^ 1024" by (rule power_strict_increasing) simp_all
  with \<open>nat \<bar>n\<bar> \<le> 2 ^ 53\<close> have "\<not> 2 ^ 1024 \<le> nat \<bar>n\<bar>" by linarith
  then show ?thesis
    by (simp add: float_of_int_def r Let_def)
qed

lemma float_of_int_overflow:
  assumes "2 ^ 1024 \<le> \<bar>n\<bar>"
  shows "float_of_int n = Raises OverflowError"
proof -
  have "2 ^ 1024 \<le> nat \<bar>n\<bar>" using assms by (simp add: le_nat_iff)
  from round_to_bits_ge [OF this] show ?thesis
    by (simp add: float_of_int_def Let_def)
qed

section \<open>The built-ins on some inputs\<close>

text \<open>
  \<^verbatim>\<open>int\<close> drops the white space of C and the no-break space, not the separators
  \<^verbatim>\<open>0x1c\<close> to \<^verbatim>\<open>0x1f\<close>; it takes single underscores between digits and no
  decimal point; it refuses a numeral beyond the limit of digits.
\<close>

lemma py_int_cases:
  "py_int [CHR 0x1C, CHR ''1'', CHR ''2''] = Raises ValueError"
  "py_int [CHR 0xA0, CHR ''1'', CHR ''2''] = Returns 12"
  "py_int '' +1_0 '' = Returns 10"
  "py_int ''1__0'' = Raises ValueError"
  "py_int ''12.5'' = Raises ValueError"
  "py_int '''' = Raises ValueError"
  by (simp_all add: py_int_def to_ascii_def unicode_space_def strip_def is_space_def
      unsigned_value_def default_max_str_digits_def is_digit_def digit_val_def)

lemma unsigned_value_limit:
  "default_max_str_digits < length (filter is_digit s) \<Longrightarrow> unsigned_value s = None"
  by (cases s) (simp_all add: unsigned_value_def)

lemma py_sleep_cases:
  "py_sleep 300 = Returns ()"
  "py_sleep 0 = Returns ()"
  "py_sleep (- 5) = Raises ValueError"
  "py_sleep (10 ^ 20) = Raises OverflowError"
  by (simp_all add: py_sleep_def)

text \<open>The sum of the doubles \<open>2 ^ 53\<close> and 1 is \<open>2 ^ 53\<close>.\<close>

lemma float_add_tie: "float_add (Finite (2 ^ 53)) (Finite 1) = Finite (2 ^ 53)"
proof -
  have k: "\<lfloor>(2 ^ 53 + 1) * 2 ^ 1074 :: rat\<rfloor> = (2 ^ 53 + 1) * 2 ^ 1074"
  proof -
    have "((2 ^ 53 + 1) * 2 ^ 1074 :: rat) = of_int ((2 ^ 53 + 1) * 2 ^ 1074)" by simp
    then show ?thesis by (simp only: floor_of_int)
  qed
  have n: "nat ((2 ^ 53 + 1) * 2 ^ 1074) = (2 ^ 53 + 1) * 2 ^ 1074"
    by (simp add: nat_mult_distrib nat_add_distrib nat_power_eq)
  have lo: "(2::nat) ^ 1127 \<le> (2 ^ 53 + 1) * 2 ^ 1074"
  proof -
    have "(2::nat) ^ 1127 = 2 ^ 53 * 2 ^ 1074" by (simp only: power_add [symmetric]; simp?)
    also have "\<dots> \<le> (2 ^ 53 + 1) * 2 ^ 1074" by (rule mult_right_mono) simp_all
    finally show ?thesis .
  qed
  have hi: "((2::nat) ^ 53 + 1) * 2 ^ 1074 < 2 ^ Suc 1127"
  proof -
    have "((2::nat) ^ 53 + 1) < 2 ^ 54" by simp
    then have "((2::nat) ^ 53 + 1) * 2 ^ 1074 < 2 ^ 54 * 2 ^ 1074" by (rule mult_strict_right_mono) simp
    also have "\<dots> = 2 ^ Suc 1127" by (simp only: power_add [symmetric]; simp?)
    finally show ?thesis .
  qed
  from bit_length_eq [OF lo hi] have b: "bit_length ((2 ^ 53 + 1) * 2 ^ 1074) - 53 = 1075" by simp
  have q: "((2 ^ 53 + 1) * 2 ^ 1074 / 2 ^ 1075 :: rat) = 2 ^ 52 + 1 / 2"
  proof -
    have "(2::rat) ^ 1075 = 2 * 2 ^ 1074" by (simp only: power_Suc [symmetric]) simp
    then show ?thesis by (simp add: field_simps)
  qed
  have f: "\<lfloor>2 ^ 52 + 1 / 2 :: rat\<rfloor> = 2 ^ 52" by (simp add: floor_unique)
  have r: "round_half_even (2 ^ 52 + 1 / 2) = 2 ^ 52"
    unfolding round_half_even_def f by (simp add: Let_def)
  have u: "nearest_units ((2 ^ 53 + 1) * 2 ^ 1074) = 2 ^ 52 * 2 ^ 1075"
    unfolding nearest_units_def k n b Let_def q r ..
  have v: "(2::int) ^ 52 * 2 ^ 1075 = 2 ^ 1127" by (simp only: power_add [symmetric]; simp?)
  have w: "\<not> (2::int) ^ 2098 \<le> 2 ^ 1127" by (simp only: power_increasing_iff; simp?)
  have d: "(of_int (2 ^ 1127) / 2 ^ 1074 :: rat) = 2 ^ 53"
  proof -
    have "(2::rat) ^ 1127 = 2 ^ 53 * 2 ^ 1074" by (simp only: power_add [symmetric]; simp?)
    then show ?thesis by simp
  qed
  have "nearest_double False (2 ^ 53 + 1) = Finite (2 ^ 53)"
    unfolding nearest_double_def u v Let_def using w d by simp
  then show ?thesis by simp
qed

section \<open>A response of valid entries\<close>

lemma float_range_exact: "\<bar>n\<bar> \<le> 2 ^ 53 \<Longrightarrow> float_range n"
proof -
  assume a: "\<bar>n\<bar> \<le> 2 ^ 53"
  have "(2::int) ^ 53 + 2 ^ 970 < 2 ^ 971"
  proof -
    have "(2::int) ^ 53 < 2 ^ 970" by (rule power_strict_increasing) simp_all
    then show ?thesis by simp
  qed
  moreover have "(2::int) ^ 971 < 2 ^ 1024" by (rule power_strict_increasing) simp_all
  ultimately show ?thesis using a by (simp add: float_range_def)
qed

lemma py_float_plain:
  assumes "plain_stake v"
  shows "py_float v = Returns (stake_float v)"
  using assms
  by (auto simp: plain_stake_def stake_float_def float_of_int_exact
      split: json.splits pyfloat.splits)

lemma py_number_plain:
  assumes "plain_stake v"
  shows "\<exists>y. py_number v = Some y \<and> number_value y = stake_float v
           \<and> number_float y = Returns (stake_float v)"
  using assms
  by (auto simp: plain_stake_def stake_float_def float_of_int_exact
      split: json.splits pyfloat.splits)

lemma modest_float:
  assumes "\<bar>a\<bar> \<le> int k * 2 ^ 53" and "k \<le> 2 ^ 53"
  shows "float_range a"
proof -
  have "int k * 2 ^ 53 \<le> 2 ^ 53 * 2 ^ 53"
    using assms(2) by (intro mult_right_mono) (simp_all add: of_nat_le_iff [symmetric] del: of_nat_le_iff)
  also have "\<dots> = (2::int) ^ 106" by (simp only: power_add [symmetric]) simp
  finally have b: "\<bar>a\<bar> \<le> 2 ^ 106" using assms(1) by simp
  have "(2::int) ^ 106 + 2 ^ 970 < 2 ^ 971"
  proof -
    have "(2::int) ^ 106 < 2 ^ 970" by (rule power_strict_increasing) simp_all
    then show ?thesis by simp
  qed
  moreover have "(2::int) ^ 971 < 2 ^ 1024" by (rule power_strict_increasing) simp_all
  ultimately show ?thesis using b by (simp add: float_range_def)
qed

lemma py_add_modest:
  assumes "modest k t" and "k \<le> 2 ^ 53" and "plain_stake v"
  shows "\<exists>t'. py_add t v = Returns t' \<and> modest (Suc k) t'"
proof (cases t)
  case (PyInt a)
  with assms(1) have a: "\<bar>a\<bar> \<le> int k * 2 ^ 53" by (simp add: modest_def)
  from modest_float [OF a assms(2)] have "float_range a" .
  then have fa: "\<exists>f. float_of_int a = Returns f"
    using float_of_int_range [of a] by (simp add: float_range_def)
  show ?thesis
  proof (cases v)
    case (JInt n)
    with assms(3) have "\<bar>n\<bar> \<le> 2 ^ 53" by (simp add: plain_stake_def)
    with a have "\<bar>a + n\<bar> \<le> int (Suc k) * 2 ^ 53" by (simp add: algebra_simps)
    with PyInt JInt show ?thesis by (simp add: py_add_def modest_def)
  next
    case (JFloat x)
    with PyInt fa show ?thesis by (auto simp: py_add_def modest_def)
  qed (use assms(3) in \<open>simp_all add: plain_stake_def\<close>)
next
  case (PyFloat x)
  from py_number_plain [OF assms(3)] obtain y where
    "py_number v = Some y" "number_float y = Returns (stake_float v)" by blast
  with PyFloat show ?thesis by (cases y) (simp_all add: py_add_def modest_def)
qed

lemma valid_staker_step:
  assumes "valid_staker s"
  shows "py_getitem s ''stake'' = Returns (entry_stake s)"
    and "plain_stake (entry_stake s)"
    and "\<exists>a. py_getitem s ''address'' = Returns a \<and> py_str a = label_of s"
  using assms
  by (auto simp: valid_staker_def entry_stake_def label_of_def split: json.splits option.splits)

text \<open>The loop runs through a prefix of valid entries and writes one series for each.\<close>

lemma stakers_loop_prefix:
  assumes "list_all valid_staker good" and "modest k t" and "k + length good \<le> 2 ^ 53"
  shows "\<exists>t'. modest (k + length good) t'
           \<and> stakers_loop (good @ items) t stakes st =
               stakers_loop items t' (stakes @ map entry_stake good)
                 (st\<lparr>staker_stake_gauge := fold set_series good (staker_stake_gauge st)\<rparr>)"
  using assms
proof (induction good arbitrary: k t stakes st)
  case Nil
  then show ?case by auto
next
  case (Cons s ss)
  from Cons.prems have v: "valid_staker s" and vs: "list_all valid_staker ss"
    and k: "k \<le> 2 ^ 53" and k': "Suc k + length ss \<le> 2 ^ 53" by simp_all
  from valid_staker_step(3) [OF v] obtain a where
    a: "py_getitem s ''address'' = Returns a" "py_str a = label_of s" by blast
  from py_add_modest [OF Cons.prems(2) k valid_staker_step(2) [OF v]] obtain t1 where
    t1: "py_add t (entry_stake s) = Returns t1" "modest (Suc k) t1" by blast
  let ?st1 = "st\<lparr>staker_stake_gauge :=
                  (staker_stake_gauge st)(label_of s \<mapsto> stake_float (entry_stake s))\<rparr>"
  from Cons.IH [OF vs t1(2) k', of "stakes @ [entry_stake s]" ?st1] obtain t' where
    t': "modest (Suc k + length ss) t'"
      "stakers_loop (ss @ items) t1 (stakes @ [entry_stake s]) ?st1 =
         stakers_loop items t' ((stakes @ [entry_stake s]) @ map entry_stake ss)
           (?st1\<lparr>staker_stake_gauge := fold set_series ss (staker_stake_gauge ?st1)\<rparr>)"
    by blast
  have step: "stakers_loop ((s # ss) @ items) t stakes st =
          stakers_loop (ss @ items) t1 (stakes @ [entry_stake s]) ?st1"
    using valid_staker_step(1) [OF v] a t1(1) py_float_plain [OF valid_staker_step(2) [OF v]]
    by simp
  have fin: "?st1\<lparr>staker_stake_gauge := fold set_series ss (staker_stake_gauge ?st1)\<rparr> =
      st\<lparr>staker_stake_gauge := fold set_series (s # ss) (staker_stake_gauge st)\<rparr>"
    by (simp add: set_series_def)
  have stk: "(stakes @ [entry_stake s]) @ map entry_stake ss = stakes @ map entry_stake (s # ss)"
    by simp
  have "stakers_loop ((s # ss) @ items) t stakes st =
      stakers_loop items t' (stakes @ map entry_stake (s # ss))
        (st\<lparr>staker_stake_gauge := fold set_series (s # ss) (staker_stake_gauge st)\<rparr>)"
    unfolding step t'(2) fin stk ..
  moreover from t'(1) have "modest (k + length (s # ss)) t'" by simp
  ultimately show ?case by blast
qed

lemma py_less_plain:
  assumes "plain_stake x" and "plain_stake y"
  shows "py_less x y = Returns (stake_value x < stake_value y)"
proof -
  from py_number_plain [OF assms(1)] obtain a where
    a: "py_number x = Some a" "number_value a = stake_float x" by blast
  from py_number_plain [OF assms(2)] obtain b where
    b: "py_number y = Some b" "number_value b = stake_float y" by blast
  have "float_less (stake_float x) (stake_float y) = (stake_value x < stake_value y)"
    using assms
    by (auto simp: plain_stake_def stake_float_def stake_value_def
        split: json.splits pyfloat.splits)
  with a b show ?thesis by (simp add: py_less_def)
qed

text \<open>\<^verbatim>\<open>max\<close> and \<^verbatim>\<open>min\<close> of plain stakes give an element that bounds the others.\<close>

lemma max_from_plain:
  assumes "plain_stake m" and "list_all plain_stake xs"
  shows "\<exists>h. max_from m xs = Returns h \<and> h \<in> set (m # xs)
           \<and> (\<forall>x \<in> set (m # xs). stake_value x \<le> stake_value h)"
  using assms
proof (induction xs arbitrary: m)
  case Nil
  then show ?case by simp
next
  case (Cons x xs)
  from Cons.prems have px: "plain_stake x" and pxs: "list_all plain_stake xs" by simp_all
  let ?m = "if stake_value m < stake_value x then x else m"
  have pm: "plain_stake ?m" using Cons.prems(1) px by simp
  from Cons.IH [OF pm pxs] obtain h where
    h: "max_from ?m xs = Returns h" "h \<in> set (?m # xs)"
      "\<forall>y \<in> set (?m # xs). stake_value y \<le> stake_value h" by blast
  have "max_from m (x # xs) = Returns h"
    using h(1) by (simp add: py_less_plain [OF Cons.prems(1) px])
  moreover have "h \<in> set (m # x # xs)" using h(2) by (auto split: if_splits)
  moreover have "\<forall>y \<in> set (m # x # xs). stake_value y \<le> stake_value h"
    using h(3) by (auto split: if_splits)
  ultimately show ?case by blast
qed

lemma min_from_plain:
  assumes "plain_stake m" and "list_all plain_stake xs"
  shows "\<exists>l. min_from m xs = Returns l \<and> l \<in> set (m # xs)
           \<and> (\<forall>x \<in> set (m # xs). stake_value l \<le> stake_value x)"
  using assms
proof (induction xs arbitrary: m)
  case Nil
  then show ?case by simp
next
  case (Cons x xs)
  from Cons.prems have px: "plain_stake x" and pxs: "list_all plain_stake xs" by simp_all
  let ?m = "if stake_value x < stake_value m then x else m"
  have pm: "plain_stake ?m" using Cons.prems(1) px by simp
  from Cons.IH [OF pm pxs] obtain l where
    l: "min_from ?m xs = Returns l" "l \<in> set (?m # xs)"
      "\<forall>y \<in> set (?m # xs). stake_value l \<le> stake_value y" by blast
  have "min_from m (x # xs) = Returns l"
    using l(1) by (simp add: py_less_plain [OF px Cons.prems(1)])
  moreover have "l \<in> set (m # x # xs)" using l(2) by (auto split: if_splits)
  moreover have "\<forall>y \<in> set (m # x # xs). stake_value l \<le> stake_value y"
    using l(3) by (auto split: if_splits)
  ultimately show ?case by blast
qed

lemma py_max_plain:
  assumes "xs \<noteq> []" and "list_all plain_stake xs"
  shows "\<exists>h. py_max xs = Returns h \<and> h \<in> set xs
           \<and> (\<forall>x \<in> set xs. stake_value x \<le> stake_value h)"
proof -
  from assms(1) obtain m rest where xs: "xs = m # rest" by (cases xs) auto
  with assms(2) have "plain_stake m" "list_all plain_stake rest" by simp_all
  from max_from_plain [OF this] show ?thesis by (simp add: py_max_def xs)
qed

lemma py_min_plain:
  assumes "xs \<noteq> []" and "list_all plain_stake xs"
  shows "\<exists>l. py_min xs = Returns l \<and> l \<in> set xs
           \<and> (\<forall>x \<in> set xs. stake_value l \<le> stake_value x)"
proof -
  from assms(1) obtain m rest where xs: "xs = m # rest" by (cases xs) auto
  with assms(2) have "plain_stake m" "list_all plain_stake rest" by simp_all
  from min_from_plain [OF this] show ?thesis by (simp add: py_min_def xs)
qed

section \<open>What \<^verbatim>\<open>process_data\<close> leaves alone\<close>

lemma stakers_loop_frame:
  "stakers_loop items t stakes st = (r, st') \<Longrightarrow>
     total_stake_gauge st' = total_stake_gauge st \<and> total_stakers_gauge st' = total_stakers_gauge st
   \<and> current_nimiq_price_gauge st' = current_nimiq_price_gauge st \<and> trace st' = trace st"
proof (induction items arbitrary: t stakes st)
  case Nil
  then show ?case by auto
next
  case (Cons x xs)
  show ?case
  proof (cases "py_getitem x ''stake''")
    case (Raises e)
    with Cons.prems show ?thesis by auto
  next
    case stake: (Returns stake)
    show ?thesis
    proof (cases "py_add t stake")
      case (Raises e)
      with Cons.prems stake show ?thesis by auto
    next
      case total: (Returns t')
      show ?thesis
      proof (cases "py_getitem x ''address''")
        case (Raises e)
        with Cons.prems stake total show ?thesis by auto
      next
        case label: (Returns label)
        show ?thesis
        proof (cases "py_float stake")
          case (Raises e)
          with Cons.prems stake total label show ?thesis by auto
        next
          case (Returns v)
          with Cons.prems stake total label
          have "stakers_loop xs t' (stakes @ [stake])
                  (st\<lparr>staker_stake_gauge := (staker_stake_gauge st)(py_str label \<mapsto> v)\<rparr>) = (r, st')"
            by simp
          from Cons.IH [OF this] show ?thesis by simp
        qed
      qed
    qed
  qed
qed

text \<open>
  The \<^verbatim>\<open>try\<close> block never touches the price gauge and only adds to the trace; when it
  returns it has printed something.
\<close>

lemma process_data_try_frame:
  assumes "process_data_try data st = (r, st')"
  shows "current_nimiq_price_gauge st' = current_nimiq_price_gauge st
       \<and> (\<exists>xs. trace st' = trace st @ xs \<and> (r = Returns () \<longrightarrow> xs \<noteq> []))"
proof (cases "py_get data ''stakers'' (JArr [])")
  case (Raises e)
  with assms show ?thesis by (auto simp: process_data_try_def)
next
  case stakers: (Returns stakers)
  show ?thesis
  proof (cases "py_truthy stakers")
    case False
    with assms stakers show ?thesis by (auto simp: process_data_try_def log_def emit_def)
  next
    case True
    show ?thesis
    proof (cases "py_len stakers")
      case (Raises e)
      with assms stakers True show ?thesis by (auto simp: process_data_try_def)
    next
      case len: (Returns n)
      show ?thesis
      proof (cases "float_of_int (int n)")
        case (Raises e)
        with assms stakers True len show ?thesis by (auto simp: process_data_try_def)
      next
        case count: (Returns c)
        show ?thesis
        proof (cases "py_iter stakers")
          case (Raises e)
          with assms stakers True len count show ?thesis by (auto simp: process_data_try_def)
        next
          case items: (Returns items)
          obtain r2 st2 where loop: "stakers_loop items (PyInt 0) [] (st\<lparr>total_stakers_gauge := c\<rparr>) = (r2, st2)"
            by (cases "stakers_loop items (PyInt 0) [] (st\<lparr>total_stakers_gauge := c\<rparr>)")
          from stakers_loop_frame [OF loop]
          have f: "current_nimiq_price_gauge st2 = current_nimiq_price_gauge st" "trace st2 = trace st"
            by simp_all
          from assms stakers True len count items loop f show ?thesis
            by (auto simp: process_data_try_def log_def emit_def
                split: result.splits prod.splits)
        qed
      qed
    qed
  qed
qed

lemma process_data_frame:
  "current_nimiq_price_gauge (process_data data st) = current_nimiq_price_gauge st
   \<and> (\<exists>xs. trace (process_data data st) = trace st @ xs \<and> xs \<noteq> [])"
proof -
  obtain r st' where t: "process_data_try data st = (r, st')"
    by (cases "process_data_try data st")
  from process_data_try_frame [OF t] t
  show ?thesis
    by (auto simp: process_data_def log_def emit_def split: result.splits py_exception.splits)
qed

lemma process_data_always_prints: "trace (process_data data st) \<noteq> trace st"
  using process_data_frame [of data st] by auto

section \<open>The extremes and the totals of a valid response\<close>

lemma valid_response_start:
  assumes "stakers_of data = Some (JArr ss)" and "ss \<noteq> []" and "length ss \<le> 2 ^ 53"
  shows "process_data_try data st =
     (case stakers_loop ss (PyInt 0) [] (st\<lparr>total_stakers_gauge := Finite (of_nat (length ss))\<rparr>) of
        (Raises e, st2) \<Rightarrow> (Raises e, st2)
      | (Returns (total_stake, stakes), st2) \<Rightarrow>
          (case py_max stakes of
             Raises e \<Rightarrow> (Raises e, st2)
           | Returns highest_stake \<Rightarrow>
               (case py_min stakes of
                  Raises e \<Rightarrow> (Raises e, st2)
                | Returns lowest_stake \<Rightarrow>
                    (case number_float total_stake of
                       Raises e \<Rightarrow> (Raises e, st2)
                     | Returns total_float \<Rightarrow>
                         (Returns (),
                          log (Lowest_stake lowest_stake)
                            (log (Highest_stake highest_stake)
                              (log (Total_stake_across total_stake (length ss))
                                (st2\<lparr>total_stake_gauge := total_float\<rparr>))))))))"
proof -
  from assms(1) obtain kvs where data: "data = JObj kvs" and get: "map_of kvs ''stakers'' = Some (JArr ss)"
    by (auto simp: stakers_of_def split: json.splits)
  have "\<bar>int (length ss)\<bar> \<le> 2 ^ 53"
  proof -
    have "int (length ss) \<le> int (2 ^ 53)" using assms(3) by (simp only: of_nat_le_iff)
    then show ?thesis by simp
  qed
  from float_of_int_exact [OF this]
  have len: "float_of_int (int (length ss)) = Returns (Finite (of_nat (length ss)))" by simp
  show ?thesis
    unfolding process_data_try_def data
    using get assms(2) by (simp add: len)
qed

text \<open>
  C3, as the specification states it, fails: a stake that \<^verbatim>\<open>float\<close> does not convert
  makes \<^verbatim>\<open>Gauge.set\<close> raise \<^verbatim>\<open>OverflowError\<close> inside the loop, before
  \<^verbatim>\<open>max\<close> and \<^verbatim>\<open>min\<close> are reached. For one entry with the stake \<open>10 ^ 400\<close>
  the only line printed is the one of the catch-all handler.
\<close>

theorem process_data_extremes_counterexample:
  "stakers_of (response_of [entry ''A'' (JInt (10 ^ 400))]) = Some (JArr [entry ''A'' (JInt (10 ^ 400))])
   \<and> \<not> malformed_staker (entry ''A'' (JInt (10 ^ 400)))
   \<and> trace (process_data (response_of [entry ''A'' (JInt (10 ^ 400))]) initial_state) =
       [Print (Error_processing_data OverflowError)]"
proof -
  have "(2::int) ^ 1024 \<le> \<bar>10 ^ 400\<bar>" by simp
  from float_of_int_overflow [OF this] have big: "float_of_int (10 ^ 400) = Raises OverflowError" .
  have one: "float_of_int 1 = Returns (Finite 1)"
    using float_of_int_exact [of 1] by simp
  show ?thesis
    by (simp add: response_of_def entry_def stakers_of_def malformed_staker_def process_data_def
        process_data_try_def initial_state_def py_add_def big [simplified] one log_def emit_def)
qed

text \<open>
  C3, amended. For a response whose \<^verbatim>\<open>stakers\<close> field is a non-empty list of valid
  entries with plain stakes, \<^verbatim>\<open>process_data\<close> prints its three lines, and the
  highest stake and the lowest stake in the second and third line bound every stake of
  the list from above and from below, and each is the stake of an entry of the list.
\<close>

theorem process_data_extremes:
  assumes "valid_response data ss"
  shows "\<exists>total_stake h l.
           trace (process_data data st) =
             trace st @
               [Print (Total_stake_across total_stake (length ss)),
                Print (Highest_stake h), Print (Lowest_stake l)]
         \<and> h \<in> entry_stake ` set ss \<and> l \<in> entry_stake ` set ss
         \<and> (\<forall>s \<in> set ss. stake_value (entry_stake s) \<le> stake_value h)
         \<and> (\<forall>s \<in> set ss. stake_value l \<le> stake_value (entry_stake s))"
proof -
  from assms have so: "stakers_of data = Some (JArr ss)" and ne: "ss \<noteq> []"
    and len: "length ss \<le> 2 ^ 53" and valid: "list_all valid_staker ss"
    by (simp_all add: valid_response_def)
  let ?st1 = "st\<lparr>total_stakers_gauge := Finite (of_nat (length ss))\<rparr>"
  let ?st2 = "?st1\<lparr>staker_stake_gauge := fold set_series ss (staker_stake_gauge ?st1)\<rparr>"
  let ?stakes = "map entry_stake ss"
  have m0: "modest 0 (PyInt 0)" by (simp add: modest_def)
  from stakers_loop_prefix [OF valid m0, of "[]" "[]" ?st1] len obtain t' where
    t': "modest (length ss) t'" and loop: "stakers_loop ss (PyInt 0) [] ?st1 = (Returns (t', ?stakes), ?st2)"
    by auto
  have plain: "list_all plain_stake ?stakes"
    using valid valid_staker_step(2) by (simp add: list_all_iff)
  have ne': "?stakes \<noteq> []" using ne by simp
  from py_max_plain [OF ne' plain] obtain h where
    h: "py_max ?stakes = Returns h" "h \<in> set ?stakes" "\<forall>x \<in> set ?stakes. stake_value x \<le> stake_value h"
    by blast
  from py_min_plain [OF ne' plain] obtain l where
    l: "py_min ?stakes = Returns l" "l \<in> set ?stakes" "\<forall>x \<in> set ?stakes. stake_value l \<le> stake_value x"
    by blast
  obtain f where f: "number_float t' = Returns f"
  proof (cases t')
    case (PyInt a)
    with t' have "\<bar>a\<bar> \<le> int (length ss) * 2 ^ 53" by (simp add: modest_def)
    from modest_float [OF this len] have "\<bar>a\<bar> < 2 ^ 1024 - 2 ^ 970" by (simp add: float_range_def)
    from float_of_int_range [OF this] PyInt that show ?thesis by simp
  next
    case (PyFloat x)
    with that show ?thesis by simp
  qed
  have "process_data_try data st =
      (Returns (),
       log (Lowest_stake l) (log (Highest_stake h) (log (Total_stake_across t' (length ss))
         (?st2\<lparr>total_stake_gauge := f\<rparr>))))"
    unfolding valid_response_start [OF so ne len] loop by (simp add: h(1) l(1) f)
  then have "trace (process_data data st) =
      trace st @ [Print (Total_stake_across t' (length ss)), Print (Highest_stake h), Print (Lowest_stake l)]"
    by (simp add: process_data_def log_def emit_def)
  with h(2,3) l(2,3) show ?thesis by (intro exI [of _ t'] exI [of _ h] exI [of _ l]) auto
qed

lemma scenario_valid: "valid_response scenario [staker_A, staker_B]"
  by (simp add: valid_response_def stakers_of_def scenario_def valid_staker_def plain_stake_def
      staker_A_def staker_B_def)

text \<open>In the scenario the highest stake is 100 and the lowest is 50.\<close>

theorem process_data_extremes_witness:
  "valid_response scenario [staker_A, staker_B]
   \<and> (\<exists>total_stake h l.
         trace (process_data scenario initial_state) =
           trace initial_state @
             [Print (Total_stake_across total_stake (length [staker_A, staker_B])),
              Print (Highest_stake h), Print (Lowest_stake l)]
       \<and> h \<in> entry_stake ` set [staker_A, staker_B] \<and> l \<in> entry_stake ` set [staker_A, staker_B]
       \<and> (\<forall>s \<in> set [staker_A, staker_B]. stake_value (entry_stake s) \<le> stake_value h)
       \<and> (\<forall>s \<in> set [staker_A, staker_B]. stake_value l \<le> stake_value (entry_stake s)))"
  using scenario_valid process_data_extremes [OF scenario_valid, of initial_state]
  by blast

section \<open>A response of integer entries\<close>

lemma integer_staker_step:
  assumes "integer_staker s"
  shows "py_getitem s ''stake'' = Returns (JInt (stake_of s))"
    and "float_range (stake_of s)"
    and "\<exists>a. py_getitem s ''address'' = Returns a"
  using assms
  by (auto simp: integer_staker_def stake_of_def entry_stake_def split: json.splits option.splits)

text \<open>Over integer entries the total stays an integer, the sum of the stakes.\<close>

lemma stakers_loop_integers:
  assumes "list_all integer_staker ss"
  shows "\<exists>st'. stakers_loop ss (PyInt t) stakes st =
           (Returns (PyInt (t + sum_list (map stake_of ss)),
                     stakes @ map (\<lambda>s. JInt (stake_of s)) ss), st')"
  using assms
proof (induction ss arbitrary: t stakes st)
  case Nil
  then show ?case by simp
next
  case (Cons s ss)
  from Cons.prems have i: "integer_staker s" and rest: "list_all integer_staker ss" by simp_all
  from integer_staker_step(3) [OF i] obtain a where a: "py_getitem s ''address'' = Returns a" by blast
  from integer_staker_step(2) [OF i] have "\<bar>stake_of s\<bar> < 2 ^ 1024 - 2 ^ 970"
    by (simp add: float_range_def)
  from float_of_int_range [OF this] obtain v where v: "float_of_int (stake_of s) = Returns v" by blast
  let ?st1 = "st\<lparr>staker_stake_gauge := (staker_stake_gauge st)(py_str a \<mapsto> v)\<rparr>"
  have step: "stakers_loop (s # ss) (PyInt t) stakes st =
      stakers_loop ss (PyInt (t + stake_of s)) (stakes @ [JInt (stake_of s)]) ?st1"
    using integer_staker_step(1) [OF i] a v by (simp add: py_add_def)
  from Cons.IH [OF rest, of "t + stake_of s" "stakes @ [JInt (stake_of s)]" ?st1]
  obtain st' where
    "stakers_loop ss (PyInt (t + stake_of s)) (stakes @ [JInt (stake_of s)]) ?st1 =
       (Returns (PyInt (t + stake_of s + sum_list (map stake_of ss)),
                 (stakes @ [JInt (stake_of s)]) @ map (\<lambda>s. JInt (stake_of s)) ss), st')"
    by blast
  with step have "stakers_loop (s # ss) (PyInt t) stakes st =
       (Returns (PyInt (t + sum_list (map stake_of (s # ss))),
                 stakes @ map (\<lambda>s. JInt (stake_of s)) (s # ss)), st')"
    by (simp add: add.assoc)
  then show ?case by blast
qed

lemma max_from_integers:
  "\<exists>h. max_from (JInt m) (map (\<lambda>s. JInt (stake_of s)) ss) = Returns h"
  by (induction ss arbitrary: m) (simp_all add: py_less_def)

lemma min_from_integers:
  "\<exists>h. min_from (JInt m) (map (\<lambda>s. JInt (stake_of s)) ss) = Returns h"
  by (induction ss arbitrary: m) (simp_all add: py_less_def)

text \<open>The double of \<open>2 ^ 53 + 1\<close> is \<open>2 ^ 53\<close>: the tie goes to the even neighbour.\<close>

lemma float_of_int_tie: "float_of_int (2 ^ 53 + 1) = Returns (Finite (2 ^ 53))"
proof -
  have n: "nat \<bar>2 ^ 53 + 1 :: int\<bar> = 2 ^ 53 + 1"
    by (simp add: nat_add_distrib nat_power_eq)
  have "bit_length (2 ^ 53 + 1) = Suc 53" by (rule bit_length_eq) simp_all
  then have "bit_length (2 ^ 53 + 1) - 53 = 1" by simp
  from round_to_bits_at [OF this] have "round_to_bits (2 ^ 53 + 1) = 2 ^ 53" by simp
  then show ?thesis by (simp add: float_of_int_def n)
qed

text \<open>
  C2, as the specification states it, fails in two ways. With one entry of the stake
  \<open>10 ^ 400\<close> the gauge \<^verbatim>\<open>total_stake\<close> is never written: \<^verbatim>\<open>Gauge.set\<close> raises
  \<^verbatim>\<open>OverflowError\<close> in the loop and the handler logs it. With the stakes \<open>2 ^ 53\<close>
  and 1 the gauge is written, with the double of the sum, which is not the sum.
\<close>

theorem process_data_totals_counterexample:
  "total_stake_gauge (process_data (response_of [entry ''A'' (JInt (10 ^ 400))]) initial_state) = Finite 0
   \<and> trace (process_data (response_of [entry ''A'' (JInt (10 ^ 400))]) initial_state) =
       [Print (Error_processing_data OverflowError)]
   \<and> total_stake_gauge
       (process_data (response_of [entry ''A'' (JInt (2 ^ 53)), entry ''B'' (JInt 1)]) initial_state) =
       Finite (2 ^ 53)
   \<and> Finite (2 ^ 53) \<noteq> Finite (of_int (sum_list [2 ^ 53, 1]))"
proof -
  have "(2::int) ^ 1024 \<le> \<bar>10 ^ 400\<bar>" by simp
  from float_of_int_overflow [OF this] have big: "float_of_int (10 ^ 400) = Raises OverflowError" .
  have one: "float_of_int 1 = Returns (Finite 1)"
    using float_of_int_exact [of 1] by simp
  have two: "float_of_int 2 = Returns (Finite 2)"
    using float_of_int_exact [of 2] by simp
  have p53: "float_of_int (2 ^ 53) = Returns (Finite (2 ^ 53))"
    using float_of_int_exact [of "2 ^ 53"] by simp
  have a: "process_data (response_of [entry ''A'' (JInt (10 ^ 400))]) initial_state =
      log (Error_processing_data OverflowError) (initial_state\<lparr>total_stakers_gauge := Finite 1\<rparr>)"
    by (simp add: response_of_def entry_def process_data_def
        process_data_try_def py_add_def big [simplified] one)
  have b: "total_stake_gauge
       (process_data (response_of [entry ''A'' (JInt (2 ^ 53)), entry ''B'' (JInt 1)]) initial_state) =
       Finite (2 ^ 53)"
    by (simp add: response_of_def entry_def process_data_def process_data_try_def py_add_def
        py_max_def py_min_def py_less_def
        one two p53 [simplified] float_of_int_tie [simplified] log_def emit_def)
  show ?thesis unfolding a b by (simp add: log_def emit_def initial_state_def)
qed

text \<open>
  C2, amended. For a response whose \<^verbatim>\<open>stakers\<close> field is a non-empty list of valid
  entries with integer stakes that \<^verbatim>\<open>float\<close> converts, and whose stakes sum to an
  integer of magnitude at most \<open>2 ^ 53\<close>, \<^verbatim>\<open>process_data\<close> leaves the sum of the
  stakes in the gauge \<^verbatim>\<open>total_stake\<close> and the number of entries in
  \<^verbatim>\<open>total_stakers\<close>.
\<close>

theorem process_data_totals:
  assumes "integer_response data ss" and "\<bar>sum_list (map stake_of ss)\<bar> \<le> 2 ^ 53"
  shows "total_stake_gauge (process_data data st) = Finite (of_int (sum_list (map stake_of ss)))
       \<and> total_stakers_gauge (process_data data st) = Finite (of_nat (length ss))"
proof -
  from assms(1) have so: "stakers_of data = Some (JArr ss)" and ne: "ss \<noteq> []"
    and len: "length ss \<le> 2 ^ 53" and ints: "list_all integer_staker ss"
    by (simp_all add: integer_response_def)
  let ?st1 = "st\<lparr>total_stakers_gauge := Finite (of_nat (length ss))\<rparr>"
  let ?stakes = "map (\<lambda>s. JInt (stake_of s)) ss"
  let ?sum = "sum_list (map stake_of ss)"
  from stakers_loop_integers [OF ints, of 0 "[]" ?st1] obtain st2 where
    loop: "stakers_loop ss (PyInt 0) [] ?st1 = (Returns (PyInt ?sum, ?stakes), st2)"
    by auto
  from stakers_loop_frame [OF loop]
  have frame: "total_stakers_gauge st2 = Finite (of_nat (length ss))" by simp
  from ne obtain s rest where ss: "ss = s # rest" by (cases ss) auto
  from max_from_integers [of "stake_of s" rest] obtain h where h: "py_max ?stakes = Returns h"
    by (auto simp: py_max_def ss)
  from min_from_integers [of "stake_of s" rest] obtain l where l: "py_min ?stakes = Returns l"
    by (auto simp: py_min_def ss)
  note f = float_of_int_exact [OF assms(2)]
  have "process_data_try data st =
      (Returns (),
       log (Lowest_stake l) (log (Highest_stake h) (log (Total_stake_across (PyInt ?sum) (length ss))
         (st2\<lparr>total_stake_gauge := Finite (of_int ?sum)\<rparr>))))"
    unfolding valid_response_start [OF so ne len] loop by (simp add: h l f)
  then show ?thesis by (simp add: process_data_def log_def emit_def frame)
qed

lemma scenario_integer: "integer_response scenario [staker_A, staker_B]"
  by (simp add: integer_response_def stakers_of_def scenario_def integer_staker_def
      float_range_exact staker_A_def staker_B_def)

text \<open>In the scenario the total stake is 150 and there are two stakers.\<close>

theorem process_data_totals_witness:
  "integer_response scenario [staker_A, staker_B]
   \<and> \<bar>sum_list (map stake_of [staker_A, staker_B])\<bar> \<le> 2 ^ 53
   \<and> total_stake_gauge (process_data scenario initial_state) = Finite 150
   \<and> total_stakers_gauge (process_data scenario initial_state) = Finite 2"
proof -
  have s: "sum_list (map stake_of [staker_A, staker_B]) = 150"
    by (simp add: stake_of_def entry_stake_def staker_A_def staker_B_def)
  have b: "\<bar>sum_list (map stake_of [staker_A, staker_B])\<bar> \<le> 2 ^ 53" unfolding s by simp
  from process_data_totals [OF scenario_integer b, of initial_state] scenario_integer b
  show ?thesis unfolding s by simp
qed

section \<open>A response with a malformed entry\<close>

lemma labelled_staker_valid: "labelled_staker s \<Longrightarrow> valid_staker s"
  by (auto simp: labelled_staker_def valid_staker_def split: json.splits option.splits)

lemma stakers_loop_missing_key:
  assumes "missing_key bad = Some k" and "modest n t" and "n \<le> 2 ^ 53"
  shows "stakers_loop (bad # rest) t stakes st = (Raises (KeyError k), st)"
proof (cases bad)
  case (JObj kvs)
  show ?thesis
  proof (cases "map_of kvs ''stake''")
    case None
    with JObj assms(1) show ?thesis by (simp add: missing_key_def)
  next
    case (Some v)
    with JObj assms(1) have v: "plain_stake v" and a: "map_of kvs ''address'' = None"
      and k: "k = ''address''"
      by (auto simp: missing_key_def split: if_splits)
    from py_add_modest [OF assms(2,3) v] obtain t' where "py_add t v = Returns t'" by blast
    with JObj Some a k show ?thesis by simp
  qed
qed (use assms(1) in \<open>simp_all add: missing_key_def\<close>)

lemma missing_key_malformed: "missing_key bad = Some k \<Longrightarrow> malformed_staker bad"
  by (auto simp: missing_key_def malformed_staker_def split: json.splits option.splits if_splits)

text \<open>
  C1, as the specification states it, fails: the count of stakers is written before the
  loop starts and every entry in front of the malformed one has written its series.
  On a response whose second entry has no \<^verbatim>\<open>stake\<close>, \<^verbatim>\<open>total_stakers\<close> goes
  from 0 to 2 and the series of A is created.
\<close>

theorem process_data_malformed_entry_counterexample:
  "malformed_staker staker_without_stake
   \<and> stakers_of broken_response = Some (JArr [staker_A, staker_without_stake])
   \<and> total_stakers_gauge initial_state = Finite 0
   \<and> total_stakers_gauge (process_data broken_response initial_state) = Finite 2
   \<and> staker_stake_gauge initial_state ''A'' = None
   \<and> staker_stake_gauge (process_data broken_response initial_state) ''A'' = Some (Finite 100)"
proof -
  have two: "float_of_int 2 = Returns (Finite 2)"
    using float_of_int_exact [of 2] by simp
  have hundred: "float_of_int 100 = Returns (Finite 100)"
    using float_of_int_exact [of 100] by simp
  show ?thesis
    by (simp add: malformed_staker_def staker_without_stake_def broken_response_def stakers_of_def
        staker_A_def process_data_def process_data_try_def initial_state_def py_add_def
        two hundred log_def emit_def)
qed

text \<open>
  C1, amended. Let the \<^verbatim>\<open>stakers\<close> list of a response have an entry that lacks
  \<^verbatim>\<open>stake\<close>, or that has a plain stake and lacks \<^verbatim>\<open>address\<close>, and let every
  entry in front of it have a string as address and a plain stake. Then
  \<^verbatim>\<open>process_data\<close> leaves the gauge \<^verbatim>\<open>total_stake\<close> and the price gauge at their
  prior values and prints one line, the one for a missing key, which names the key. It
  has set \<^verbatim>\<open>total_stakers\<close> to the length of the list, and it has written the series
  of the entries in front of the malformed one and no other.
\<close>

theorem process_data_malformed_entry:
  assumes "stakers_of data = Some (JArr (good @ bad # rest))"
    and "list_all labelled_staker good"
    and "missing_key bad = Some k"
    and "length (good @ bad # rest) \<le> 2 ^ 53"
  shows "process_data data st =
           st\<lparr>total_stakers_gauge := Finite (of_nat (length (good @ bad # rest))),
              staker_stake_gauge := fold set_series good (staker_stake_gauge st),
              trace := trace st @ [Print (Missing_expected_key (KeyError k))]\<rparr>
       \<and> total_stake_gauge (process_data data st) = total_stake_gauge st
       \<and> current_nimiq_price_gauge (process_data data st) = current_nimiq_price_gauge st"
proof -
  let ?ss = "good @ bad # rest"
  let ?st1 = "st\<lparr>total_stakers_gauge := Finite (of_nat (length ?ss))\<rparr>"
  let ?st2 = "?st1\<lparr>staker_stake_gauge := fold set_series good (staker_stake_gauge ?st1)\<rparr>"
  have ne: "?ss \<noteq> []" by simp
  have valid: "list_all valid_staker good"
    using assms(2) labelled_staker_valid by (simp add: list_all_iff)
  have m0: "modest 0 (PyInt 0)" by (simp add: modest_def)
  have len: "0 + length good \<le> 2 ^ 53" using assms(4) by simp
  from stakers_loop_prefix [OF valid m0 len, of "bad # rest" "[]" ?st1] obtain t' where
    t': "modest (0 + length good) t'"
    and loop: "stakers_loop ?ss (PyInt 0) [] ?st1 =
                 stakers_loop (bad # rest) t' ([] @ map entry_stake good) ?st2"
    by blast
  have "stakers_loop ?ss (PyInt 0) [] ?st1 = (Raises (KeyError k), ?st2)"
    unfolding loop by (rule stakers_loop_missing_key [OF assms(3) t' len])
  then have "process_data_try data st = (Raises (KeyError k), ?st2)"
    unfolding valid_response_start [OF assms(1) ne assms(4)] by simp
  then show ?thesis
    by (simp add: process_data_def log_def emit_def)
qed

theorem process_data_malformed_entry_witness:
  "stakers_of broken_response = Some (JArr ([staker_A] @ staker_without_stake # []))
   \<and> list_all labelled_staker [staker_A]
   \<and> missing_key staker_without_stake = Some ''stake''
   \<and> length ([staker_A] @ staker_without_stake # []) \<le> 2 ^ 53
   \<and> trace (process_data broken_response initial_state) =
       [Print (Missing_expected_key (KeyError ''stake''))]
   \<and> total_stake_gauge (process_data broken_response initial_state) = Finite 0"
proof -
  have h1: "stakers_of broken_response = Some (JArr ([staker_A] @ staker_without_stake # []))"
    by (simp add: broken_response_def stakers_of_def)
  have h2: "list_all labelled_staker [staker_A]"
    by (simp add: labelled_staker_def plain_stake_def staker_A_def)
  have h3: "missing_key staker_without_stake = Some ''stake''"
    by (simp add: missing_key_def staker_without_stake_def)
  have h4: "length ([staker_A] @ staker_without_stake # []) \<le> 2 ^ 53" by simp
  from process_data_malformed_entry [OF h1 h2 h3 h4, of initial_state] h1 h2 h3 h4
  show ?thesis by (simp add: initial_state_def)
qed

section \<open>A response without stakers\<close>

text \<open>
  C4, as the specification states it, fails for the empty object: \<^verbatim>\<open>main\<close> calls
  \<^verbatim>\<open>process_data\<close> only \<^verbatim>\<open>if data:\<close>, and \<^verbatim>\<open>{}\<close> is falsy. The round then
  prints nothing about stakers.
\<close>

theorem scrape_cycle_empty_object_counterexample:
  "stakers_of (JObj []) = None
   \<and> trace (snd (scrape_cycle default_config (Returns (JObj []))
                  (Raises (RequestException ''timeout'')) initial_state)) =
       [Print Scraping_data, HttpGet (url default_config), HttpGet PRICE_URL,
        Print (Error_fetching_Nimiq_price (RequestException ''timeout'')),
        Print (Next_scrape_in 300), Sleep 300]
   \<and> Print No_stakers_found \<notin>
       set (trace (snd (scrape_cycle default_config (Returns (JObj []))
                         (Raises (RequestException ''timeout'')) initial_state)))"
  by (simp add: stakers_of_def scrape_cycle_def scrape_registration_def
      fetch_registration_data_def scrape_price_def fetch_nimiq_price_def default_config_def
      DEFAULT_INTERVAL_def initial_state_def log_def emit_def py_sleep_def)

text \<open>
  C4, amended. For a response that is an object whose \<^verbatim>\<open>stakers\<close> field is absent or
  the empty list, \<^verbatim>\<open>process_data\<close> changes no gauge and prints the line that no
  stakers were found. In a round of the loop this is what happens when the object has at
  least one field: the round then goes on to the price half with the gauges as they were
  and that line printed.
\<close>

theorem process_data_no_stakers:
  assumes "map_of kvs ''stakers'' = None \<or> map_of kvs ''stakers'' = Some (JArr [])"
  shows "process_data (JObj kvs) st = st\<lparr>trace := trace st @ [Print No_stakers_found]\<rparr>
       \<and> (kvs \<noteq> [] \<longrightarrow>
            scrape_cycle cfg (Returns (JObj kvs)) price_response st =
              scrape_price cfg price_response
                (st\<lparr>trace := trace st @
                   [Print Scraping_data, HttpGet (url cfg), Print No_stakers_found]\<rparr>))"
proof -
  have p: "process_data (JObj kvs) st' = st'\<lparr>trace := trace st' @ [Print No_stakers_found]\<rparr>" for st'
    using assms by (auto simp: process_data_def process_data_try_def log_def emit_def)
  show ?thesis
    by (simp add: p scrape_cycle_def scrape_registration_def fetch_registration_data_def
        log_def emit_def)
qed

text \<open>The scenario \<^verbatim>\<open>{"stakers": []}\<close> of the specification.\<close>

theorem process_data_no_stakers_witness:
  "(map_of [(''stakers'', JArr [])] ''stakers'' = None
      \<or> map_of [(''stakers'', JArr [])] ''stakers'' = Some (JArr []))
   \<and> [(''stakers'', JArr [])] \<noteq> []
   \<and> process_data (JObj [(''stakers'', JArr [])]) initial_state =
       initial_state\<lparr>trace := [Print No_stakers_found]\<rparr>
   \<and> scrape_cycle default_config (Returns (JObj [(''stakers'', JArr [])]))
        (Raises (RequestException ''timeout'')) initial_state =
       scrape_price default_config (Raises (RequestException ''timeout''))
         (initial_state\<lparr>trace :=
            [Print Scraping_data, HttpGet (url default_config), Print No_stakers_found]\<rparr>)"
  using process_data_no_stakers [of "[(''stakers'', JArr [])]" initial_state default_config
      "Raises (RequestException ''timeout'')"]
  by (simp add: initial_state_def)

section \<open>The registration fetch\<close>

text \<open>
  C6, as the specification states it, fails in its second half: the fetch hands on
  whatever \<^verbatim>\<open>response.json()\<close> returned and compares it with no structure. A body
  that is the list \<^verbatim>\<open>[1]\<close> comes back as that list.
\<close>

theorem fetch_registration_data_counterexample:
  "stakers_of (JArr [JInt 1]) = None
   \<and> fst (fetch_registration_data (url default_config) (Returns (JArr [JInt 1])) initial_state) =
       Returns (JArr [JInt 1])"
  by (simp add: stakers_of_def fetch_registration_data_def)

text \<open>
  C6, amended. When the HTTP client raises an exception of the class
  \<^verbatim>\<open>RequestException\<close> (no connection, a status that is not 2xx), the registration
  fetch prints the cause and returns \<^verbatim>\<open>None\<close>; it does not raise. When the client
  returns a parsed body, the fetch returns that body as it is, whatever its shape.
\<close>

theorem fetch_registration_data_outcomes:
  "fetch_registration_data api_url (Raises (RequestException cause)) st =
     (Returns JNull, log (Error_fetching_data (RequestException cause)) (emit (HttpGet api_url) st))
   \<and> fetch_registration_data api_url (Returns body) st = (Returns body, emit (HttpGet api_url) st)"
  by (simp add: fetch_registration_data_def)

section \<open>One round of the loop\<close>

lemma scrape_registration_outcome:
  assumes "request_outcome registration"
  shows "fst (scrape_registration cfg registration st) = Returns ()
       \<and> (\<exists>xs. trace (snd (scrape_registration cfg registration st)) =
             trace st @ [Print Scraping_data, HttpGet (url cfg)] @ xs)"
proof -
  let ?st1 = "emit (HttpGet (url cfg)) (log Scraping_data st)"
  have st1: "trace ?st1 = trace st @ [Print Scraping_data, HttpGet (url cfg)]"
    by (simp add: log_def emit_def)
  show ?thesis
  proof (cases registration)
    case (Returns body)
    from process_data_frame [of body ?st1] obtain xs where
      "trace (process_data body ?st1) = trace ?st1 @ xs" by blast
    with Returns st1 show ?thesis
      by (cases "py_truthy body")
         (simp_all add: scrape_registration_def fetch_registration_data_def)
  next
    case (Raises e)
    with assms obtain cause where "e = RequestException cause"
      by (cases e) (simp_all add: request_outcome_def)
    with Raises show ?thesis
      by (simp add: scrape_registration_def fetch_registration_data_def log_def emit_def)
  qed
qed

lemma scrape_registration_price:
  "current_nimiq_price_gauge (snd (scrape_registration cfg registration st)) =
     current_nimiq_price_gauge st"
proof (cases registration)
  case (Returns body)
  then show ?thesis
    using process_data_frame [of body "emit (HttpGet (url cfg)) (log Scraping_data st)"]
    by (simp add: scrape_registration_def fetch_registration_data_def log_def emit_def)
next
  case (Raises e)
  then show ?thesis
    by (cases e) (simp_all add: scrape_registration_def fetch_registration_data_def log_def emit_def)
qed

lemma scrape_cycle_after_registration:
  assumes "request_outcome registration"
  shows "scrape_cycle cfg registration price_response st =
           scrape_price cfg price_response (snd (scrape_registration cfg registration st))"
  using scrape_registration_outcome [OF assms, of cfg st]
  by (cases "scrape_registration cfg registration st") (simp add: scrape_cycle_def)

lemma fetch_nimiq_price_shaped:
  assumes "price_shaped body"
  shows "fetch_nimiq_price (Returns body) st =
           (Returns (case usd_price body of None \<Rightarrow> JNull | Some p \<Rightarrow> p), emit (HttpGet PRICE_URL) st)"
  using assms
  by (auto simp: fetch_nimiq_price_def price_shaped_def usd_price_def
      split: json.splits option.splits)

lemma fetch_nimiq_price_quoted:
  assumes "usd_price body = Some p"
  shows "fetch_nimiq_price (Returns body) st = (Returns p, emit (HttpGet PRICE_URL) st)"
  using assms
  by (auto simp: fetch_nimiq_price_def usd_price_def split: json.splits option.splits)

lemma price_shaped_cases:
  assumes "price_shaped body"
  shows "usd_price body = None \<or> (\<exists>p. usd_price body = Some (JInt p) \<and> float_range p)
       \<or> (\<exists>x. usd_price body = Some (JFloat x))"
proof (cases "usd_price body")
  case None
  then show ?thesis by simp
next
  case (Some v)
  with assms show ?thesis
    by (cases v) (auto simp: price_shaped_def usd_price_def split: json.splits option.splits)
qed

lemma py_sleep_range: "sleep_range secs \<Longrightarrow> py_sleep secs = Returns ()"
  by (simp add: sleep_range_def py_sleep_def)

lemma scrape_price_outcome:
  assumes "price_outcome price_response" and "sleep_range (interval cfg)"
  shows "fst (scrape_price cfg price_response st) = Returns ()
       \<and> (\<exists>ys. trace (snd (scrape_price cfg price_response st)) =
             trace st @ [HttpGet PRICE_URL] @ ys @
               [Print (Next_scrape_in (interval cfg)), Sleep (interval cfg)])"
proof (cases price_response)
  case (Returns body)
  with assms have shaped: "price_shaped body" by (simp add: price_outcome_def)
  from price_shaped_cases [OF shaped]
  consider "usd_price body = None"
    | p where "usd_price body = Some (JInt p)" "float_range p"
    | x where "usd_price body = Some (JFloat x)"
    by auto
  then show ?thesis
  proof cases
    case 1
    then show ?thesis
      unfolding Returns scrape_price_def fetch_nimiq_price_shaped [OF shaped]
      by (simp add: log_def emit_def py_sleep_range [OF assms(2)])
  next
    case 2
    from 2(2) have "\<bar>p\<bar> < 2 ^ 1024 - 2 ^ 970" by (simp add: float_range_def)
    from float_of_int_range [OF this] obtain v where v: "float_of_int p = Returns v" by blast
    from 2(1) v show ?thesis
      unfolding Returns scrape_price_def fetch_nimiq_price_shaped [OF shaped]
      by (simp add: log_def emit_def py_sleep_range [OF assms(2)])
  next
    case 3
    then show ?thesis
      unfolding Returns scrape_price_def fetch_nimiq_price_shaped [OF shaped]
      by (simp add: log_def emit_def py_sleep_range [OF assms(2)])
  qed
next
  case (Raises e)
  with assms obtain cause where "e = RequestException cause"
    by (cases e) (simp_all add: price_outcome_def)
  with Raises show ?thesis
    by (simp add: scrape_price_def fetch_nimiq_price_def log_def emit_def
        py_sleep_range [OF assms(2)])
qed

lemma scrape_price_sleep:
  "current_nimiq_price_gauge
     (snd (let st3 = log (Next_scrape_in i) st2 in
           case py_sleep i of
             Raises e \<Rightarrow> (Raises e, st3)
           | Returns u \<Rightarrow> (Returns (), emit (Sleep i) st3))) = current_nimiq_price_gauge st2"
  by (cases "py_sleep i") (simp_all add: Let_def log_def emit_def)

lemma scrape_price_failed:
  "current_nimiq_price_gauge (snd (scrape_price cfg (Raises e) st)) = current_nimiq_price_gauge st"
  by (cases e; cases "py_sleep (interval cfg)")
     (simp_all add: scrape_price_def fetch_nimiq_price_def Let_def log_def emit_def)

lemma scrape_price_absent:
  assumes "price_shaped body" and "usd_price body = None"
  shows "current_nimiq_price_gauge (snd (scrape_price cfg (Returns body) st)) =
           current_nimiq_price_gauge st"
  unfolding scrape_price_def fetch_nimiq_price_shaped [OF assms(1)]
  using assms(2) by (cases "py_sleep (interval cfg)") (simp_all add: Let_def log_def emit_def)

lemma scrape_price_decimal:
  assumes "usd_price body = Some (JFloat x)" and "float_truthy x"
  shows "current_nimiq_price_gauge (snd (scrape_price cfg (Returns body) st)) = x"
  unfolding scrape_price_def fetch_nimiq_price_quoted [OF assms(1)]
  using assms(2) by (cases "py_sleep (interval cfg)") (simp_all add: Let_def log_def emit_def)

lemma scrape_price_integer:
  assumes "usd_price body = Some (JInt p)" and "p \<noteq> 0" and "float_of_int p = Returns v"
  shows "current_nimiq_price_gauge (snd (scrape_price cfg (Returns body) st)) = v"
  unfolding scrape_price_def fetch_nimiq_price_quoted [OF assms(1)]
  using assms(2,3) by (cases "py_sleep (interval cfg)") (simp_all add: Let_def log_def emit_def)

lemma cycle_keeps_price_on_failure:
  "current_nimiq_price_gauge (snd (scrape_cycle cfg registration (Raises e) st)) =
     current_nimiq_price_gauge st"
proof -
  obtain r st1 where reg: "scrape_registration cfg registration st = (r, st1)"
    by (cases "scrape_registration cfg registration st")
  with scrape_registration_price [of cfg registration st]
  have "current_nimiq_price_gauge st1 = current_nimiq_price_gauge st" by simp
  with reg show ?thesis
    by (cases r) (simp_all add: scrape_cycle_def scrape_price_failed)
qed

section \<open>The price gauge\<close>

text \<open>
  C5, as the specification states it, fails in its second half: \<^verbatim>\<open>main\<close> writes the
  gauge only \<^verbatim>\<open>if price:\<close>. After a round that fetched the price 5, a round whose
  price fetch succeeds with the value 0 leaves the gauge at 5; so does one that fetched
  the decimal \<^verbatim>\<open>0.0\<close>. A fetched price of \<open>10 ^ 400\<close> is not written either:
  \<^verbatim>\<open>Gauge.set\<close> raises \<^verbatim>\<open>OverflowError\<close>, which ends the round and the program.
\<close>

theorem scrape_cycle_price_counterexample:
  "usd_price (price_body 0) = Some (JInt 0)
   \<and> current_nimiq_price_gauge
       (snd (scrape_loop default_config
               [(Returns scenario, Returns (price_body 5)),
                (Returns scenario, Returns (price_body 0))] initial_state)) = Finite 5
   \<and> usd_price (decimal_price_body (Finite 0)) = Some (JFloat (Finite 0))
   \<and> current_nimiq_price_gauge
       (snd (scrape_loop default_config
               [(Returns scenario, Returns (price_body 5)),
                (Returns scenario, Returns (decimal_price_body (Finite 0)))] initial_state)) = Finite 5
   \<and> usd_price (price_body (10 ^ 400)) = Some (JInt (10 ^ 400))
   \<and> scrape_cycle default_config (Raises (RequestException ''timeout''))
        (Returns (price_body (10 ^ 400))) initial_state =
       (Raises OverflowError,
        initial_state\<lparr>trace :=
          [Print Scraping_data, HttpGet (url default_config),
           Print (Error_fetching_data (RequestException ''timeout'')), HttpGet PRICE_URL]\<rparr>)"
proof -
  have "(2::int) ^ 1024 \<le> \<bar>10 ^ 400\<bar>" by simp
  from float_of_int_overflow [OF this] have big: "float_of_int (10 ^ 400) = Raises OverflowError" .
  have small: "float_of_int 2 = Returns (Finite 2)" "float_of_int 5 = Returns (Finite 5)"
    "float_of_int 50 = Returns (Finite 50)" "float_of_int 100 = Returns (Finite 100)"
    "float_of_int 150 = Returns (Finite 150)"
    using float_of_int_exact [of 2] float_of_int_exact [of 5] float_of_int_exact [of 50]
      float_of_int_exact [of 100] float_of_int_exact [of 150]
    by simp_all
  show ?thesis
    by (simp add: usd_price_def price_body_def decimal_price_body_def scrape_cycle_def
        scrape_registration_def
        fetch_registration_data_def scrape_price_def fetch_nimiq_price_def default_config_def
        DEFAULT_INTERVAL_def initial_state_def log_def emit_def py_sleep_def process_data_def
        process_data_try_def scenario_def staker_A_def staker_B_def py_add_def py_max_def
        py_min_def py_less_def small big [simplified])
qed

text \<open>
  C5, amended. In every round of the loop, when the price request raises, the price gauge
  keeps its prior value; so it does when the body has the shape of the price API and
  quotes no price. When the registration half has not ended the round and the body quotes
  a decimal other than zero, the gauge holds that decimal after the round; when it quotes
  an integer other than zero that \<^verbatim>\<open>float\<close> converts, the gauge holds the double of
  that integer, which is the integer itself up to the magnitude \<open>2 ^ 53\<close>.
\<close>

theorem scrape_cycle_price:
  "current_nimiq_price_gauge (snd (scrape_cycle cfg registration (Raises e) st)) =
     current_nimiq_price_gauge st
   \<and> (request_outcome registration \<and> price_shaped body \<and> usd_price body = None \<longrightarrow>
        current_nimiq_price_gauge (snd (scrape_cycle cfg registration (Returns body) st)) =
          current_nimiq_price_gauge st)
   \<and> (request_outcome registration \<and> usd_price body = Some (JFloat x) \<and> float_truthy x \<longrightarrow>
        current_nimiq_price_gauge (snd (scrape_cycle cfg registration (Returns body) st)) = x)
   \<and> (request_outcome registration \<and> usd_price body = Some (JInt p) \<and> p \<noteq> 0 \<and> float_range p \<longrightarrow>
        float_of_int p =
          Returns (current_nimiq_price_gauge (snd (scrape_cycle cfg registration (Returns body) st)))
      \<and> (\<bar>p\<bar> \<le> 2 ^ 53 \<longrightarrow>
           current_nimiq_price_gauge (snd (scrape_cycle cfg registration (Returns body) st)) =
             Finite (of_int p)))"
proof (intro conjI impI)
  show "current_nimiq_price_gauge (snd (scrape_cycle cfg registration (Raises e) st)) =
     current_nimiq_price_gauge st"
    by (rule cycle_keeps_price_on_failure)
next
  assume "request_outcome registration \<and> price_shaped body \<and> usd_price body = None"
  then show "current_nimiq_price_gauge (snd (scrape_cycle cfg registration (Returns body) st)) =
          current_nimiq_price_gauge st"
    by (simp add: scrape_cycle_after_registration scrape_price_absent scrape_registration_price)
next
  assume "request_outcome registration \<and> usd_price body = Some (JFloat x) \<and> float_truthy x"
  then show "current_nimiq_price_gauge (snd (scrape_cycle cfg registration (Returns body) st)) = x"
    by (simp add: scrape_cycle_after_registration scrape_price_decimal)
next
  assume a: "request_outcome registration \<and> usd_price body = Some (JInt p) \<and> p \<noteq> 0 \<and> float_range p"
  then have "\<bar>p\<bar> < 2 ^ 1024 - 2 ^ 970" by (simp add: float_range_def)
  from float_of_int_range [OF this] obtain v where v: "float_of_int p = Returns v" by blast
  with a have g: "current_nimiq_price_gauge (snd (scrape_cycle cfg registration (Returns body) st)) = v"
    by (simp add: scrape_cycle_after_registration scrape_price_integer)
  show "float_of_int p =
          Returns (current_nimiq_price_gauge (snd (scrape_cycle cfg registration (Returns body) st)))"
    unfolding g by (rule v)
  assume "\<bar>p\<bar> \<le> 2 ^ 53"
  from float_of_int_exact [OF this] v
  show "current_nimiq_price_gauge (snd (scrape_cycle cfg registration (Returns body) st)) =
             Finite (of_int p)"
    unfolding g by simp
qed

theorem scrape_cycle_price_witness:
  "request_outcome (Returns scenario)
   \<and> price_shaped (JObj []) \<and> usd_price (JObj []) = None
   \<and> usd_price (decimal_price_body (Finite (1 / 4))) = Some (JFloat (Finite (1 / 4)))
   \<and> float_truthy (Finite (1 / 4))
   \<and> usd_price (price_body 3) = Some (JInt 3) \<and> (3::int) \<noteq> 0 \<and> float_range 3 \<and> \<bar>3::int\<bar> \<le> 2 ^ 53
   \<and> current_nimiq_price_gauge
       (snd (scrape_cycle default_config (Returns scenario) (Returns (JObj [])) initial_state)) =
       Finite 0
   \<and> current_nimiq_price_gauge
       (snd (scrape_cycle default_config (Returns scenario)
               (Returns (decimal_price_body (Finite (1 / 4)))) initial_state)) = Finite (1 / 4)
   \<and> current_nimiq_price_gauge
       (snd (scrape_cycle default_config (Returns scenario) (Returns (price_body 3)) initial_state)) =
       Finite 3"
proof -
  have h1: "request_outcome (Returns scenario)" by (simp add: request_outcome_def)
  have h2: "price_shaped (JObj []) \<and> usd_price (JObj []) = None"
    by (simp add: price_shaped_def usd_price_def)
  have h3: "usd_price (decimal_price_body (Finite (1 / 4))) = Some (JFloat (Finite (1 / 4)))
      \<and> float_truthy (Finite (1 / 4))"
    by (simp add: usd_price_def decimal_price_body_def)
  have h4: "usd_price (price_body 3) = Some (JInt 3) \<and> (3::int) \<noteq> 0 \<and> \<bar>3::int\<bar> \<le> 2 ^ 53"
    by (simp add: usd_price_def price_body_def)
  have h5: "float_range 3" by (rule float_range_exact) simp
  from scrape_cycle_price [of default_config "Returns scenario" ValueError initial_state "JObj []"]
    scrape_cycle_price [of default_config "Returns scenario" ValueError initial_state
      "decimal_price_body (Finite (1 / 4))" "Finite (1 / 4)"]
    scrape_cycle_price [of default_config "Returns scenario" ValueError initial_state "price_body 3" _ 3]
    h1 h2 h3 h4 h5
  show ?thesis by (simp add: initial_state_def)
qed

section \<open>A round reaches its sleep\<close>

text \<open>
  C7, as the specification states it, fails in its second half: the handler of
  \<^verbatim>\<open>fetch_nimiq_price\<close> catches \<^verbatim>\<open>RequestException\<close> only, and \<^verbatim>\<open>main\<close> has no
  handler. After a registration request that failed, a price body
  \<^verbatim>\<open>{"nimiq-2": null}\<close> makes \<^verbatim>\<open>.get("usd")\<close> raise \<^verbatim>\<open>AttributeError\<close>, and
  the round ends before the sleep; a price of \<open>10 ^ 400\<close> makes \<^verbatim>\<open>Gauge.set\<close> raise
  \<^verbatim>\<open>OverflowError\<close>. With \<^verbatim>\<open>FETCH_INTERVAL=-5\<close> the sleep itself raises
  \<^verbatim>\<open>ValueError\<close>, with an interval of \<open>10 ^ 20\<close> seconds \<^verbatim>\<open>OverflowError\<close>.
\<close>

theorem scrape_cycle_completes_counterexample:
  "request_outcome (Raises (RequestException ''timeout''))
   \<and> fst (scrape_cycle default_config (Raises (RequestException ''timeout''))
            (Returns (JObj [(''nimiq-2'', JNull)])) initial_state) = Raises AttributeError
   \<and> Sleep (interval default_config) \<notin>
       set (trace (snd (scrape_cycle default_config (Raises (RequestException ''timeout''))
                         (Returns (JObj [(''nimiq-2'', JNull)])) initial_state)))
   \<and> fst (scrape_cycle default_config (Raises (RequestException ''timeout''))
            (Returns (price_body (10 ^ 400))) initial_state) = Raises OverflowError
   \<and> load_config (Map.empty(''FETCH_INTERVAL'' \<mapsto> ''-5'')) =
       Returns (default_config\<lparr>interval := - 5\<rparr>)
   \<and> price_outcome (Returns (price_body 3))
   \<and> fst (scrape_cycle (default_config\<lparr>interval := - 5\<rparr>)
            (Raises (RequestException ''timeout'')) (Returns (price_body 3)) initial_state) =
       Raises ValueError
   \<and> fst (scrape_cycle (default_config\<lparr>interval := 10 ^ 20\<rparr>)
            (Raises (RequestException ''timeout'')) (Returns (price_body 3)) initial_state) =
       Raises OverflowError"
proof -
  have "(2::int) ^ 1024 \<le> \<bar>10 ^ 400\<bar>" by simp
  from float_of_int_overflow [OF this] have big: "float_of_int (10 ^ 400) = Raises OverflowError" .
  have three: "float_of_int 3 = Returns (Finite 3)"
    using float_of_int_exact [of 3] by simp
  have shaped: "price_outcome (Returns (price_body 3))"
    by (simp add: price_outcome_def price_shaped_def price_body_def float_range_exact)
  have conf: "load_config (Map.empty(''FETCH_INTERVAL'' \<mapsto> ''-5'')) =
       Returns (default_config\<lparr>interval := - 5\<rparr>)"
    by (simp add: default_config_def DEFAULT_INTERVAL_def load_config_def py_int_def to_ascii_def
        strip_def is_space_def unsigned_value_def default_max_str_digits_def is_digit_def
        digit_val_def)
  have rounds: "request_outcome (Raises (RequestException ''timeout''))
   \<and> fst (scrape_cycle default_config (Raises (RequestException ''timeout''))
            (Returns (JObj [(''nimiq-2'', JNull)])) initial_state) = Raises AttributeError
   \<and> Sleep (interval default_config) \<notin>
       set (trace (snd (scrape_cycle default_config (Raises (RequestException ''timeout''))
                         (Returns (JObj [(''nimiq-2'', JNull)])) initial_state)))
   \<and> fst (scrape_cycle default_config (Raises (RequestException ''timeout''))
            (Returns (price_body (10 ^ 400))) initial_state) = Raises OverflowError
   \<and> fst (scrape_cycle (default_config\<lparr>interval := - 5\<rparr>)
            (Raises (RequestException ''timeout'')) (Returns (price_body 3)) initial_state) =
       Raises ValueError
   \<and> fst (scrape_cycle (default_config\<lparr>interval := 10 ^ 20\<rparr>)
            (Raises (RequestException ''timeout'')) (Returns (price_body 3)) initial_state) =
       Raises OverflowError"
    by (simp add: request_outcome_def price_body_def
        scrape_cycle_def scrape_registration_def
        fetch_registration_data_def scrape_price_def fetch_nimiq_price_def default_config_def
        DEFAULT_INTERVAL_def initial_state_def log_def emit_def py_sleep_def
        three big [simplified])
  from rounds conf shaped show ?thesis by blast
qed

text \<open>
  C7, amended. For every value \<open>data\<close>, an exception raised in the \<^verbatim>\<open>try\<close> block of
  \<^verbatim>\<open>process_data\<close> is caught there and printed, by one of the two handlers, and
  \<^verbatim>\<open>process_data\<close> returns. One round of the loop goes from the registration fetch to
  the price fetch and on to the sleep, and raises nothing, for every registration outcome
  that is a parsed body or a \<^verbatim>\<open>RequestException\<close>, when the price outcome is a
  \<^verbatim>\<open>RequestException\<close> or a body of the shape of the price API, whose price, when
  it is an integer, \<^verbatim>\<open>float\<close> converts, and the interval is one that \<^verbatim>\<open>time.sleep\<close>
  accepts.
\<close>

theorem scrape_cycle_completes:
  "(process_data_try data st = (Raises e, st') \<longrightarrow>
      (\<exists>message. process_data data st = log message st'
         \<and> (message = Missing_expected_key e \<or> message = Error_processing_data e)))
   \<and> (request_outcome registration \<and> price_outcome price_response \<and> sleep_range (interval cfg) \<longrightarrow>
        fst (scrape_cycle cfg registration price_response st) = Returns ()
      \<and> (\<exists>xs ys. trace (snd (scrape_cycle cfg registration price_response st)) =
            trace st @ [Print Scraping_data, HttpGet (url cfg)] @ xs @ [HttpGet PRICE_URL] @ ys @
              [Print (Next_scrape_in (interval cfg)), Sleep (interval cfg)]))"
proof (intro conjI impI)
  assume "process_data_try data st = (Raises e, st')"
  then show "\<exists>message. process_data data st = log message st'
         \<and> (message = Missing_expected_key e \<or> message = Error_processing_data e)"
    by (cases e) (auto simp: process_data_def)
next
  assume a: "request_outcome registration \<and> price_outcome price_response \<and> sleep_range (interval cfg)"
  then have r: "request_outcome registration" and p: "price_outcome price_response"
    and i: "sleep_range (interval cfg)" by simp_all
  from scrape_price_outcome [OF p i]
  show "fst (scrape_cycle cfg registration price_response st) = Returns ()"
    unfolding scrape_cycle_after_registration [OF r] by simp
  let ?st1 = "snd (scrape_registration cfg registration st)"
  from scrape_registration_outcome [OF r, of cfg st] obtain xs where
    xs: "trace ?st1 = trace st @ [Print Scraping_data, HttpGet (url cfg)] @ xs" by blast
  from scrape_price_outcome [OF p i, of ?st1] obtain ys where
    ys: "trace (snd (scrape_price cfg price_response ?st1)) =
           trace ?st1 @ [HttpGet PRICE_URL] @ ys @
             [Print (Next_scrape_in (interval cfg)), Sleep (interval cfg)]" by blast
  show "\<exists>xs ys. trace (snd (scrape_cycle cfg registration price_response st)) =
            trace st @ [Print Scraping_data, HttpGet (url cfg)] @ xs @ [HttpGet PRICE_URL] @ ys @
              [Print (Next_scrape_in (interval cfg)), Sleep (interval cfg)]"
    unfolding scrape_cycle_after_registration [OF r] ys xs by auto
qed

text \<open>
  The scenario of the specification: the registration request fails in transport, the
  price arrives; and \<^verbatim>\<open>process_data(None)\<close>, which runs into \<^verbatim>\<open>AttributeError\<close>.
\<close>

theorem scrape_cycle_completes_witness:
  "process_data_try JNull initial_state = (Raises AttributeError, initial_state)
   \<and> request_outcome (Raises (RequestException ''timeout''))
   \<and> price_outcome (Returns (price_body 3))
   \<and> sleep_range (interval default_config)
   \<and> (\<exists>message. process_data JNull initial_state = log message initial_state
         \<and> (message = Missing_expected_key AttributeError
              \<or> message = Error_processing_data AttributeError))
   \<and> fst (scrape_cycle default_config (Raises (RequestException ''timeout''))
            (Returns (price_body 3)) initial_state) = Returns ()
   \<and> (\<exists>xs ys. trace (snd (scrape_cycle default_config (Raises (RequestException ''timeout''))
                            (Returns (price_body 3)) initial_state)) =
         trace initial_state @ [Print Scraping_data, HttpGet (url default_config)] @ xs @
           [HttpGet PRICE_URL] @ ys @
           [Print (Next_scrape_in (interval default_config)), Sleep (interval default_config)])"
proof -
  have h1: "process_data_try JNull initial_state = (Raises AttributeError, initial_state)"
    by (simp add: process_data_try_def)
  have h2: "request_outcome (Raises (RequestException ''timeout''))"
    by (simp add: request_outcome_def)
  have h3: "price_outcome (Returns (price_body 3))"
    by (simp add: price_outcome_def price_shaped_def price_body_def float_range_exact)
  have h4: "sleep_range (interval default_config)"
    by (simp add: default_config_def DEFAULT_INTERVAL_def sleep_range_def)
  from scrape_cycle_completes [of JNull initial_state AttributeError initial_state
      "Raises (RequestException ''timeout'')" "Returns (price_body 3)" default_config] h1 h2 h3 h4
  show ?thesis by blast
qed

section \<open>A falsy body\<close>

text \<open>
  C10. When the registration fetch returns a falsy body (\<^verbatim>\<open>{}\<close>, \<^verbatim>\<open>null\<close>,
  \<^verbatim>\<open>0\<close>, \<^verbatim>\<open>[]\<close>, \<^verbatim>\<open>""\<close>, \<^verbatim>\<open>false\<close>), the registration half of the round
  does nothing but announce the scrape and send the request: no gauge is written and
  nothing is printed about stakers, which \<^verbatim>\<open>process_data\<close> would have done
  (\<open>process_data_always_prints\<close>). The round goes on to the price half from that state,
  as it does after a fetch that failed, which has printed its error line.
\<close>

theorem scrape_cycle_falsy_body:
  assumes "\<not> py_truthy body"
  shows "scrape_registration cfg (Returns body) st =
           (Returns (), st\<lparr>trace := trace st @ [Print Scraping_data, HttpGet (url cfg)]\<rparr>)
       \<and> scrape_cycle cfg (Returns body) price_response st =
           scrape_price cfg price_response
             (st\<lparr>trace := trace st @ [Print Scraping_data, HttpGet (url cfg)]\<rparr>)
       \<and> scrape_cycle cfg (Raises (RequestException cause)) price_response st =
           scrape_price cfg price_response
             (st\<lparr>trace := trace st @
                [Print Scraping_data, HttpGet (url cfg),
                 Print (Error_fetching_data (RequestException cause))]\<rparr>)"
  using assms
  by (simp add: scrape_cycle_def scrape_registration_def fetch_registration_data_def
      log_def emit_def)

theorem scrape_cycle_falsy_body_witness:
  "\<not> py_truthy (JObj [])
   \<and> scrape_registration default_config (Returns (JObj [])) initial_state =
       (Returns (), initial_state\<lparr>trace := [Print Scraping_data, HttpGet (url default_config)]\<rparr>)
   \<and> scrape_cycle default_config (Returns (JObj [])) (Returns (price_body 3)) initial_state =
       scrape_price default_config (Returns (price_body 3))
         (initial_state\<lparr>trace := [Print Scraping_data, HttpGet (url default_config)]\<rparr>)"
proof -
  have h: "\<not> py_truthy (JObj [])" by simp
  from scrape_cycle_falsy_body [OF h, of default_config initial_state "Returns (price_body 3)"] h
  show ?thesis by (simp add: initial_state_def)
qed

section \<open>The series of the labelled gauge\<close>

lemma py_getitem_address:
  "py_getitem x ''address'' = Returns label \<Longrightarrow> py_str label \<in> set (entry_label x)"
  by (cases x) (auto simp: entry_label_def split: option.splits)

lemma stakers_loop_series:
  "stakers_loop items t stakes st = (r, st') \<Longrightarrow>
     dom (staker_stake_gauge st) \<subseteq> dom (staker_stake_gauge st')
   \<and> (\<forall>a. a \<notin> set (concat (map entry_label items)) \<longrightarrow>
          staker_stake_gauge st' a = staker_stake_gauge st a)"
proof (induction items arbitrary: t stakes st)
  case Nil
  then show ?case by auto
next
  case (Cons x xs)
  show ?case
  proof (cases "py_getitem x ''stake''")
    case (Raises e)
    with Cons.prems show ?thesis by auto
  next
    case stake: (Returns stake)
    show ?thesis
    proof (cases "py_add t stake")
      case (Raises e)
      with Cons.prems stake show ?thesis by auto
    next
      case total: (Returns t')
      show ?thesis
      proof (cases "py_getitem x ''address''")
        case (Raises e)
        with Cons.prems stake total show ?thesis by auto
      next
        case label: (Returns label)
        show ?thesis
        proof (cases "py_float stake")
          case (Raises e)
          with Cons.prems stake total label show ?thesis by auto
        next
          case (Returns v)
          let ?st1 = "st\<lparr>staker_stake_gauge := (staker_stake_gauge st)(py_str label \<mapsto> v)\<rparr>"
          from Cons.prems stake total label Returns
          have "stakers_loop xs t' (stakes @ [stake]) ?st1 = (r, st')"
            by simp
          from Cons.IH [OF this]
          have d: "dom (staker_stake_gauge ?st1) \<subseteq> dom (staker_stake_gauge st')"
            and k: "\<forall>a. a \<notin> set (concat (map entry_label xs)) \<longrightarrow>
                      staker_stake_gauge st' a = staker_stake_gauge ?st1 a"
            by blast+
          have "dom (staker_stake_gauge st) \<subseteq> dom (staker_stake_gauge ?st1)"
            by auto
          with d have "dom (staker_stake_gauge st) \<subseteq> dom (staker_stake_gauge st')"
            by blast
          moreover have "\<forall>a. a \<notin> set (concat (map entry_label (x # xs))) \<longrightarrow>
                      staker_stake_gauge st' a = staker_stake_gauge st a"
          proof (intro allI impI)
            fix a
            assume a: "a \<notin> set (concat (map entry_label (x # xs)))"
            then have "a \<noteq> py_str label" using py_getitem_address [OF label] by auto
            moreover from a k have "staker_stake_gauge st' a = staker_stake_gauge ?st1 a" by simp
            ultimately show "staker_stake_gauge st' a = staker_stake_gauge st a" by simp
          qed
          ultimately show ?thesis by simp
        qed
      qed
    qed
  qed
qed

lemma process_data_try_series:
  assumes "process_data_try data st = (r, st')"
  shows "dom (staker_stake_gauge st) \<subseteq> dom (staker_stake_gauge st')
       \<and> (\<forall>a. a \<notin> set (response_labels (Returns data)) \<longrightarrow>
              staker_stake_gauge st' a = staker_stake_gauge st a)"
proof (cases "py_get data ''stakers'' (JArr [])")
  case (Raises e)
  with assms show ?thesis by (auto simp: process_data_try_def)
next
  case stakers: (Returns stakers)
  show ?thesis
  proof (cases "py_truthy stakers")
    case False
    with assms stakers show ?thesis by (auto simp: process_data_try_def log_def emit_def)
  next
    case True
    show ?thesis
    proof (cases "py_len stakers")
      case (Raises e)
      with assms stakers True show ?thesis by (auto simp: process_data_try_def)
    next
      case len: (Returns n)
      show ?thesis
      proof (cases "float_of_int (int n)")
        case (Raises e)
        with assms stakers True len show ?thesis by (auto simp: process_data_try_def)
      next
        case stakers_float: (Returns c)
        show ?thesis
        proof (cases "py_iter stakers")
          case (Raises e)
          with assms stakers True len stakers_float show ?thesis
            by (auto simp: process_data_try_def)
        next
          case items: (Returns items)
          obtain r2 st2 where
            loop: "stakers_loop items (PyInt 0) [] (st\<lparr>total_stakers_gauge := c\<rparr>) = (r2, st2)"
            by (cases "stakers_loop items (PyInt 0) [] (st\<lparr>total_stakers_gauge := c\<rparr>)")
          have labels: "set (concat (map entry_label items)) \<subseteq> set (response_labels (Returns data))"
          proof (cases stakers)
            case (JArr ss)
            with stakers True have "stakers_of data = Some (JArr ss)"
              by (cases data) (auto simp: stakers_of_def split: option.splits)
            with items JArr show ?thesis by (simp add: response_labels_def)
          qed (use items in \<open>auto simp: entry_label_def\<close>)
          have st1: "staker_stake_gauge (st\<lparr>total_stakers_gauge := c\<rparr>) = staker_stake_gauge st"
            by simp
          from stakers_loop_series [OF loop, unfolded st1]
          have d: "dom (staker_stake_gauge st) \<subseteq> dom (staker_stake_gauge st2)"
            and k: "\<forall>a. a \<notin> set (concat (map entry_label items)) \<longrightarrow>
                staker_stake_gauge st2 a = staker_stake_gauge st a"
            by blast+
          from k labels have "\<forall>a. a \<notin> set (response_labels (Returns data)) \<longrightarrow>
                staker_stake_gauge st2 a = staker_stake_gauge st a"
            by blast
          note s = d this
          have "staker_stake_gauge st' = staker_stake_gauge st2"
            using assms stakers True len stakers_float items loop
            by (auto simp: process_data_try_def log_def emit_def split: result.splits prod.splits)
          with s show ?thesis by simp
        qed
      qed
    qed
  qed
qed

lemma process_data_series:
  "dom (staker_stake_gauge st) \<subseteq> dom (staker_stake_gauge (process_data data st))"
  "a \<notin> set (response_labels (Returns data)) \<Longrightarrow>
     staker_stake_gauge (process_data data st) a = staker_stake_gauge st a"
proof -
  obtain r st' where t: "process_data_try data st = (r, st')"
    by (cases "process_data_try data st")
  have g: "staker_stake_gauge (process_data data st) = staker_stake_gauge st'"
    using t by (auto simp: process_data_def log_def emit_def split: result.splits py_exception.splits)
  from process_data_try_series [OF t] g
  show "dom (staker_stake_gauge st) \<subseteq> dom (staker_stake_gauge (process_data data st))"
    and "a \<notin> set (response_labels (Returns data)) \<Longrightarrow>
     staker_stake_gauge (process_data data st) a = staker_stake_gauge st a"
    by simp_all
qed

lemma scrape_price_series:
  "staker_stake_gauge (snd (scrape_price cfg price_response st)) = staker_stake_gauge st"
  by (auto simp: scrape_price_def fetch_nimiq_price_def log_def emit_def py_sleep_def Let_def
      split: result.splits py_exception.splits prod.splits)

lemma scrape_registration_series:
  "dom (staker_stake_gauge st) \<subseteq> dom (staker_stake_gauge (snd (scrape_registration cfg registration st)))"
  "a \<notin> set (response_labels registration) \<Longrightarrow>
     staker_stake_gauge (snd (scrape_registration cfg registration st)) a = staker_stake_gauge st a"
proof -
  let ?st1 = "emit (HttpGet (url cfg)) (log Scraping_data st)"
  have st1: "staker_stake_gauge ?st1 = staker_stake_gauge st"
    by (simp add: log_def emit_def)
  have "dom (staker_stake_gauge st) \<subseteq> dom (staker_stake_gauge (snd (scrape_registration cfg registration st)))
      \<and> (a \<notin> set (response_labels registration) \<longrightarrow>
           staker_stake_gauge (snd (scrape_registration cfg registration st)) a = staker_stake_gauge st a)"
  proof (cases registration)
    case (Returns data)
    then show ?thesis
      using process_data_series(1) [of ?st1 data] process_data_series(2) [of a data ?st1] st1
      by (simp add: scrape_registration_def fetch_registration_data_def)
  next
    case (Raises e)
    then show ?thesis
      by (cases e) (simp_all add: scrape_registration_def fetch_registration_data_def log_def emit_def)
  qed
  then show "dom (staker_stake_gauge st) \<subseteq> dom (staker_stake_gauge (snd (scrape_registration cfg registration st)))"
    and "a \<notin> set (response_labels registration) \<Longrightarrow>
     staker_stake_gauge (snd (scrape_registration cfg registration st)) a = staker_stake_gauge st a"
    by simp_all
qed

lemma scrape_cycle_series_gauge:
  "staker_stake_gauge (snd (scrape_cycle cfg registration price_response st)) =
     staker_stake_gauge (snd (scrape_registration cfg registration st))"
  by (cases "scrape_registration cfg registration st")
     (auto simp: scrape_cycle_def scrape_price_series split: result.splits)

lemma scrape_loop_series:
  "dom (staker_stake_gauge st) \<subseteq> dom (staker_stake_gauge (snd (scrape_loop cfg rounds st)))"
proof (induction rounds arbitrary: st)
  case Nil
  then show ?case by simp
next
  case (Cons round rounds)
  obtain registration price_response where round: "round = (registration, price_response)"
    by (cases round)
  obtain r st1 where c: "scrape_cycle cfg registration price_response st = (r, st1)"
    by (cases "scrape_cycle cfg registration price_response st")
  have "dom (staker_stake_gauge st) \<subseteq> dom (staker_stake_gauge st1)"
    using scrape_registration_series(1) [of st cfg registration]
      scrape_cycle_series_gauge [of cfg registration price_response st] c by simp
  with Cons.IH [of st1] show ?case
    unfolding round using c by (cases r) auto
qed

text \<open>
  C8. A round of the loop removes no series of the gauge \<^verbatim>\<open>staker_stake\<close>, and it
  leaves the value of every series whose label is not the address of an entry of the
  round's registration response as it was: a series written in an earlier round stays
  until an entry with that address comes again. The same holds of any number of rounds:
  no series is ever removed.
\<close>

theorem stale_series_persist:
  "dom (staker_stake_gauge st) \<subseteq>
     dom (staker_stake_gauge (snd (scrape_cycle cfg registration price_response st)))
   \<and> (a \<notin> set (response_labels registration) \<longrightarrow>
        staker_stake_gauge (snd (scrape_cycle cfg registration price_response st)) a =
          staker_stake_gauge st a)
   \<and> dom (staker_stake_gauge st) \<subseteq> dom (staker_stake_gauge (snd (scrape_loop cfg rounds st)))"
  unfolding scrape_cycle_series_gauge
  using scrape_registration_series(1) [of st cfg registration]
    scrape_registration_series(2) [of a registration cfg st] scrape_loop_series [of st cfg rounds]
  by simp

text \<open>
  After the scenario, a round whose response holds B alone leaves the series of A at 100.
\<close>

lemma after_scenario_A: "staker_stake_gauge after_scenario ''A'' = Some (Finite 100)"
  by (simp add: after_scenario_def scrape_cycle_series_gauge scrape_registration_def
      fetch_registration_data_def log_def emit_def process_data_def process_data_try_def
      scenario_def staker_A_def staker_B_def py_add_def py_max_def py_min_def py_less_def
      float_of_int_exact)

theorem stale_series_persist_witness:
  "''A'' \<notin> set (response_labels (Returns only_B))
   \<and> staker_stake_gauge after_scenario ''A'' = Some (Finite 100)
   \<and> staker_stake_gauge
        (snd (scrape_cycle default_config (Returns only_B) (Raises (RequestException ''timeout'')) after_scenario)) ''A''
       = Some (Finite 100)"
proof -
  have h: "''A'' \<notin> set (response_labels (Returns only_B))"
    by (simp add: response_labels_def only_B_def stakers_of_def entry_label_def)
  from stale_series_persist [of after_scenario default_config "Returns only_B"
      "Raises (RequestException ''timeout'')" "''A''" "[]"] h after_scenario_A
  show ?thesis by simp
qed

section \<open>The configuration read at start\<close>

lemma not_digit: "\<not> is_digit CHR ''-''" "\<not> is_digit CHR ''+''" "\<not> is_digit CHR ''_''"
  by (simp_all add: is_digit_def)

lemma digit_not_space: "is_digit c \<Longrightarrow> \<not> is_space c"
  by (auto simp: is_digit_def is_space_def)

lemma digit_char_props:
  assumes "d < 10"
  shows "is_digit (digit_char d)" and "digit_val (digit_char d) = d"
proof -
  have v: "(of_char (digit_char d) :: nat) = 48 + d"
    using assms by (simp add: digit_char_def)
  show "is_digit (digit_char d)" using assms by (simp add: is_digit_def v)
  show "digit_val (digit_char d) = d" by (simp add: digit_val_def v)
qed

text \<open>The value that the digits of a numeral add to an accumulator.\<close>

lemma digits_value_digits:
  "list_all is_digit ds \<Longrightarrow>
     digits_value acc ds = Some (foldl (\<lambda>a c. a * 10 + digit_val c) acc ds)"
  by (induction ds arbitrary: acc) simp_all

lemma digits_of_digits: "list_all is_digit (digits_of n)"
proof (induction n rule: digits_of.induct)
  case (1 n)
  show ?case
  proof (cases "n < 10")
    case True
    then show ?thesis by (subst digits_of.simps) (simp add: digit_char_props)
  next
    case False
    with "1.IH" show ?thesis by (subst digits_of.simps) (simp add: digit_char_props)
  qed
qed

lemma digits_of_value:
  "foldl (\<lambda>a c. a * 10 + digit_val c) acc (digits_of n) = acc * 10 ^ length (digits_of n) + n"
proof (induction n arbitrary: acc rule: digits_of.induct)
  case (1 n)
  show ?case
  proof (cases "n < 10")
    case True
    then show ?thesis by (subst (1 2) digits_of.simps) (simp add: digit_char_props)
  next
    case False
    then have "foldl (\<lambda>a c. a * 10 + digit_val c) acc (digits_of n) =
        (acc * 10 ^ length (digits_of (n div 10)) + n div 10) * 10 + n mod 10"
      using "1.IH" [of acc] by (subst digits_of.simps) (simp add: digit_char_props)
    also have "\<dots> = acc * 10 ^ length (digits_of n) + n"
      using False by (subst (2) digits_of.simps) (simp add: algebra_simps)
    finally show ?thesis .
  qed
qed

lemma digits_of_nonempty: "digits_of n \<noteq> []"
  by (subst digits_of.simps) simp

text \<open>A number below \<open>10 ^ k\<close> has at most \<open>k\<close> digits.\<close>

lemma digits_of_length:
  "0 < k \<Longrightarrow> n < 10 ^ k \<Longrightarrow> length (digits_of n) \<le> k"
proof (induction n arbitrary: k rule: digits_of.induct)
  case (1 n)
  show ?case
  proof (cases "n < 10")
    case True
    with "1.prems" show ?thesis by (subst digits_of.simps) simp
  next
    case False
    from "1.prems" obtain j where k: "k = Suc j" by (cases k) auto
    have "0 < j"
    proof (rule ccontr)
      assume "\<not> 0 < j"
      with k "1.prems" have "n < 10" by simp
      with False show False by simp
    qed
    moreover from "1.prems" k have "n div 10 < 10 ^ j" by (simp add: less_mult_imp_div_less mult.commute)
    ultimately have "length (digits_of (n div 10)) \<le> j" using "1.IH" [OF False] by simp
    with False k show ?thesis by (subst digits_of.simps) simp
  qed
qed

lemma unsigned_value_digits_of:
  assumes "n < 10 ^ default_max_str_digits"
  shows "unsigned_value (digits_of n) = Some n"
proof -
  obtain c cs where ds: "digits_of n = c # cs"
    using digits_of_nonempty [of n] by (cases "digits_of n") auto
  from digits_of_digits [of n] ds have c: "is_digit c" by simp
  have "filter is_digit (digits_of n) = digits_of n"
    using digits_of_digits [of n] by (simp add: list_all_iff)
  moreover have "length (digits_of n) \<le> default_max_str_digits"
    by (rule digits_of_length [OF _ assms]) (simp add: default_max_str_digits_def)
  ultimately have "length (filter is_digit (c # cs)) \<le> default_max_str_digits" using ds by simp
  with ds c show ?thesis
    using digits_value_digits [OF digits_of_digits, of 0 n] digits_of_value [of 0 n]
    by (simp add: unsigned_value_def del: filter.simps)
qed

lemma digit_ascii: "is_digit c \<Longrightarrow> (of_char c :: nat) < 128"
  by (simp add: is_digit_def)

lemma to_ascii_str_of_int: "to_ascii (str_of_int i) = str_of_int i"
proof -
  have "list_all (\<lambda>c. (of_char c :: nat) < 128) (digits_of n)" for n
    using digits_of_digits [of n] digit_ascii by (simp add: list_all_iff)
  then show ?thesis by (simp add: to_ascii_def str_of_int_def)
qed

lemma strip_unspaced:
  assumes "s \<noteq> []" and "\<not> is_space (hd s)" and "\<not> is_space (last s)"
  shows "strip s = s"
proof -
  from assms have "dropWhile is_space s = s" by (cases s) auto
  moreover from assms have "dropWhile is_space (rev s) = rev s"
    by (cases "rev s") (auto simp: last_rev [symmetric] hd_rev)
  ultimately show ?thesis by (simp add: strip_def)
qed

lemma strip_digits_of: "strip (digits_of n) = digits_of n"
proof (rule strip_unspaced [OF digits_of_nonempty])
  from digits_of_digits [of n] digits_of_nonempty [of n]
  have "is_digit (hd (digits_of n))" and "is_digit (last (digits_of n))"
    by (simp_all add: list_all_iff)
  then show "\<not> is_space (hd (digits_of n))" and "\<not> is_space (last (digits_of n))"
    by (simp_all add: digit_not_space)
qed

lemma strip_minus_digits_of: "strip (CHR ''-'' # digits_of n) = CHR ''-'' # digits_of n"
proof (rule strip_unspaced)
  show "CHR ''-'' # digits_of n \<noteq> []" by simp
  show "\<not> is_space (hd (CHR ''-'' # digits_of n))" by (simp add: is_space_def)
  from digits_of_digits [of n] digits_of_nonempty [of n]
  have "is_digit (last (digits_of n))" by (simp add: list_all_iff)
  then show "\<not> is_space (last (CHR ''-'' # digits_of n))"
    using digits_of_nonempty [of n] by (simp add: digit_not_space)
qed

text \<open>\<^verbatim>\<open>int\<close> reads back the numeral of an integer of at most 4300 digits.\<close>

lemma py_int_str_of_int:
  assumes "\<bar>i\<bar> < 10 ^ default_max_str_digits"
  shows "py_int (str_of_int i) = Returns i"
proof -
  have "int (nat \<bar>i\<bar>) < int (10 ^ default_max_str_digits)" using assms by simp
  then have bound: "nat \<bar>i\<bar> < 10 ^ default_max_str_digits" by (simp only: of_nat_less_iff)
  show ?thesis
  proof (cases "i < 0")
    case True
    then have "nat (- i) = nat \<bar>i\<bar>" by simp
    with bound have "unsigned_value (digits_of (nat (- i))) = Some (nat (- i))"
      by (simp only: unsigned_value_digits_of)
    with True have "py_int (CHR ''-'' # digits_of (nat (- i))) = Returns i"
      using to_ascii_str_of_int [of i]
      by (simp add: py_int_def str_of_int_def strip_minus_digits_of)
    with True show ?thesis by (simp add: str_of_int_def)
  next
    case False
    then have "nat i = nat \<bar>i\<bar>" by simp
    with bound have u: "unsigned_value (digits_of (nat i)) = Some (nat i)"
      by (simp only: unsigned_value_digits_of)
    obtain c cs where ds: "digits_of (nat i) = c # cs"
      using digits_of_nonempty [of "nat i"] by (cases "digits_of (nat i)") auto
    from digits_of_digits [of "nat i"] ds have "is_digit c" by simp
    then have c: "c \<noteq> CHR ''-''" "c \<noteq> CHR ''+''" using not_digit by auto
    from u ds have "unsigned_value (c # cs) = Some (nat i)" by simp
    with False c show ?thesis
      using strip_digits_of [of "nat i"] ds to_ascii_str_of_int [of i]
      by (simp add: py_int_def str_of_int_def)
  qed
qed

text \<open>
  C9, as the specification states it, fails in its last part: the value of
  \<^verbatim>\<open>FETCH_INTERVAL\<close> goes through \<^verbatim>\<open>int\<close> and is not checked. With
  \<^verbatim>\<open>FETCH_INTERVAL=0\<close> the interval is 0.
\<close>

theorem load_config_interval_counterexample:
  "interval_of (load_config (Map.empty(''FETCH_INTERVAL'' \<mapsto> ''0''))) = Some 0
   \<and> \<not> positive_interval (load_config (Map.empty(''FETCH_INTERVAL'' \<mapsto> ''0'')))"
  by (simp add: interval_of_def positive_interval_def load_config_def py_int_def to_ascii_def
      strip_def is_space_def unsigned_value_def default_max_str_digits_def is_digit_def
      digit_val_def)

text \<open>
  C9, amended. When \<^verbatim>\<open>NIMIQ_ADDRESS\<close> is not set, the configured address is the
  default address; when \<^verbatim>\<open>FETCH_INTERVAL\<close> is not set, the interval is 300. When
  \<^verbatim>\<open>FETCH_INTERVAL\<close> is set to the decimal numeral of an integer \<open>n\<close> of at most
  4300 digits, the default limit of the interpreter, the interval is \<open>n\<close>, which is positive exactly when \<open>n\<close> is; when
  it is set to a text that \<^verbatim>\<open>int\<close> refuses, the program does not start.
\<close>

theorem load_config_values:
  "(env ''NIMIQ_ADDRESS'' = None \<and> load_config env = Returns cfg \<longrightarrow> address cfg = DEFAULT_ADDRESS)
   \<and> (env ''FETCH_INTERVAL'' = None \<longrightarrow> interval_of (load_config env) = Some 300)
   \<and> (env ''FETCH_INTERVAL'' = Some (str_of_int n) \<and> \<bar>n\<bar> < 10 ^ default_max_str_digits \<longrightarrow>
        interval_of (load_config env) = Some n
      \<and> (positive_interval (load_config env) \<longleftrightarrow> 0 < n))
   \<and> (env ''FETCH_INTERVAL'' = Some s \<and> py_int s = Raises e \<longrightarrow> load_config env = Raises e)"
  by (auto simp: load_config_def interval_of_def positive_interval_def DEFAULT_INTERVAL_def
      py_int_str_of_int Let_def split: result.splits option.splits)

theorem load_config_values_witness:
  "Map.empty ''NIMIQ_ADDRESS'' = (None :: string option)
   \<and> load_config Map.empty = Returns default_config
   \<and> address default_config = DEFAULT_ADDRESS
   \<and> interval_of (load_config Map.empty) = Some 300
   \<and> str_of_int 42 = ''42'' \<and> \<bar>42 :: int\<bar> < 10 ^ default_max_str_digits
   \<and> interval_of (load_config (Map.empty(''FETCH_INTERVAL'' \<mapsto> ''42''))) = Some 42
   \<and> positive_interval (load_config (Map.empty(''FETCH_INTERVAL'' \<mapsto> ''42'')))
   \<and> py_int ''soon'' = Raises ValueError
   \<and> load_config (Map.empty(''FETCH_INTERVAL'' \<mapsto> ''soon'')) = Raises ValueError"
proof -
  have h1: "load_config Map.empty = Returns default_config"
    by (simp add: load_config_def default_config_def)
  have h2: "str_of_int 42 = ''42''"
    by code_simp
  have h3: "py_int ''soon'' = Raises ValueError"
    by (simp add: py_int_def to_ascii_def strip_def is_space_def unsigned_value_def is_digit_def)
  have h4: "\<bar>42 :: int\<bar> < 10 ^ default_max_str_digits"
  proof -
    have "(10::int) ^ 2 \<le> 10 ^ default_max_str_digits"
      by (rule power_increasing) (simp_all add: default_max_str_digits_def)
    then show ?thesis by simp
  qed
  from load_config_values [of Map.empty default_config 42 "''soon''" ValueError]
    load_config_values [of "Map.empty(''FETCH_INTERVAL'' \<mapsto> ''42'')" default_config 42 "''soon''" ValueError]
    load_config_values [of "Map.empty(''FETCH_INTERVAL'' \<mapsto> ''soon'')" default_config 42 "''soon''" ValueError]
    h1 h2 h3 h4
  show ?thesis by simp
qed

end
